theory Spec2Isabelle
  imports Main "HOL-Library.Word" "HOL-Library.Signed_Division"
begin

unbundle bit_operations_syntax

section \<open>The render surface as a trace of draw calls\<close>

text \<open>
  The driver and the sketch draw through the M5GFX object \<open>M5.Display\<close>. The surface is
  modelled by the list of primitives called on it, in call order. Calls made by the driver
  record the 32-bit arguments as the driver passes them; calls made by \<open>main.cpp\<close> on
  \<open>M5.Display\<close> directly carry \<open>int\<close> arguments.
\<close>

type_synonym u8 = "8 word"
type_synonym u16 = "16 word"
type_synonym u32 = "32 word"

text \<open>The palette constants of M5GFX stay symbolic; \<open>RGB565\<close> is a raw 16-bit colour.\<close>

datatype color =
  TFT_BLACK | TFT_NAVY | TFT_WHITE | TFT_CYAN | TFT_GREEN | TFT_YELLOW | TFT_RED
  | TFT_LIGHTGREY | RGB565 u16

datatype font = FreeSansBold18pt7b | FreeSansBold12pt7b | FreeSans12pt7b | FreeSans9pt7b

datatype datum = MC_DATUM | ML_DATUM

datatype gfx_call =
    StartWrite
  | EndWrite
  | SetAddrWindow u32 u32 u32 u32
  | WritePixel u32 u32 u16
  | FillRect u32 u32 u32 u32 u16
  | ReadRect u32 u32 u32 u32
  | PushImage u32 u32 u32 u32
  | FillScreen color
  | SetTextColor color
  | SetTextSize nat
  | SetCursor int int
  | Println string
  | Print string
  | FillRectI int int int int color
  | SetTextDatum datum
  | SetFont font
  | DrawString string int int
  | FillCircle int int int color

text \<open>
  The only run-time fault the modelled code can raise: an unsigned \<open>%\<close> or \<open>/\<close> whose
  divisor is zero. HOL's \<open>mod\<close> and \<open>div\<close> are total, so the fault is a value.
\<close>

datatype error = DivisionByZero

section \<open>M5GFX\_VNCDriver\<close>

record driver =
  isPaused :: bool
  updateX :: u32
  updateY :: u32
  updateW :: u32
  updateH :: u32
  pixelCount :: u32

text \<open>The constructor's initialiser list.\<close>

definition M5GFX_VNCDriver :: driver where
  "M5GFX_VNCDriver =
     \<lparr>isPaused = False, updateX = 0, updateY = 0, updateW = 0, updateH = 0, pixelCount = 0\<rparr>"

definition setPaused :: "bool \<Rightarrow> driver \<Rightarrow> driver" where
  "setPaused paused d = d\<lparr>isPaused := paused\<rparr>"

definition hasCopyRect :: bool where
  "hasCopyRect = True"

text \<open>\<open>color = (color >> 8) | (color << 8)\<close> on a \<open>uint16_t\<close>.\<close>

definition swap16 :: "u16 \<Rightarrow> u16" where
  "swap16 color = drop_bit 8 color OR push_bit 8 color"

text \<open>
  A pixel buffer is the memory behind the pointer the protocol layer passes: it is
  read at index \<open>i\<close> with no bounds check, so it is a function from indices.
\<close>

type_synonym pixbuf = "nat \<Rightarrow> u16"

text \<open>The \<open>for\<close> loop of \<open>draw_area\<close>, from counter \<open>i\<close> on.\<close>

function draw_area_loop :: "u32 \<Rightarrow> u32 \<Rightarrow> u32 \<Rightarrow> pixbuf \<Rightarrow> u32 \<Rightarrow> u32 \<Rightarrow> error + gfx_call list" where
  "draw_area_loop x y w pixels count i =
     (if i < count then
        (if w = 0 then Inl DivisionByZero
         else
           (case draw_area_loop x y w pixels count (i + 1) of
              Inl e \<Rightarrow> Inl e
            | Inr cs \<Rightarrow>
                Inr (WritePixel (x + (i mod w)) (y + (i div w)) (swap16 (pixels (unat i))) # cs)))
      else Inr [])"
  by pat_completeness auto

lemma unat_succ_below: "(i :: u32) < n \<Longrightarrow> unat (i + 1) = Suc (unat i)"
proof -
  assume "i < n"
  then have "unat i < unat n"
    by (simp add: word_less_nat_alt)
  moreover have "unat n < 2 ^ 32"
    using unsigned_less [of n] by simp
  ultimately have "unat i + unat (1 :: u32) < 2 ^ LENGTH(32)"
    by simp
  then have "unat (i + 1) = unat i + unat (1 :: u32)"
    by (simp only: unat_add_lem)
  then show ?thesis
    by simp
qed

termination draw_area_loop
  by (relation "measure (\<lambda>(x, y, w, pixels, count, i). unat count - unat i)")
     (auto simp: unat_succ_below word_less_nat_alt)

declare draw_area_loop.simps [simp del]

definition draw_area :: "driver \<Rightarrow> u32 \<Rightarrow> u32 \<Rightarrow> u32 \<Rightarrow> u32 \<Rightarrow> pixbuf \<Rightarrow> error + gfx_call list" where
  "draw_area d x y w h data =
     (if isPaused d then Inr []
      else
        (case draw_area_loop x y w data (w * h) 0 of
           Inl e \<Rightarrow> Inl e
         | Inr cs \<Rightarrow> Inr ([StartWrite, SetAddrWindow x y w h] @ cs @ [EndWrite])))"

definition draw_rect :: "driver \<Rightarrow> u32 \<Rightarrow> u32 \<Rightarrow> u32 \<Rightarrow> u32 \<Rightarrow> u16 \<Rightarrow> gfx_call list" where
  "draw_rect d x y w h color =
     (if isPaused d then [] else [FillRect x y w h (swap16 color)])"

text \<open>The row-at-a-time fallback loop of \<open>copy_rect\<close>, from counter \<open>row\<close> on.\<close>

function copy_rect_rows :: "u32 \<Rightarrow> u32 \<Rightarrow> u32 \<Rightarrow> u32 \<Rightarrow> u32 \<Rightarrow> u32 \<Rightarrow> u32 \<Rightarrow> gfx_call list" where
  "copy_rect_rows src_x src_y dest_x dest_y w h row =
     (if row < h then
        ReadRect src_x (src_y + row) w 1 # PushImage dest_x (dest_y + row) w 1
          # copy_rect_rows src_x src_y dest_x dest_y w h (row + 1)
      else [])"
  by pat_completeness auto

termination copy_rect_rows
  by (relation "measure (\<lambda>(src_x, src_y, dest_x, dest_y, w, h, row). unat h - unat row)")
     (auto simp: unat_succ_below word_less_nat_alt)

declare copy_rect_rows.simps [simp del]

text \<open>
  \<open>buffer_ok\<close> is the outcome of \<open>heap_caps_malloc\<close>: \<open>True\<close> when it returned a
  buffer, \<open>False\<close> when it returned \<open>nullptr\<close>.
\<close>

definition copy_rect :: "driver \<Rightarrow> bool \<Rightarrow> u32 \<Rightarrow> u32 \<Rightarrow> u32 \<Rightarrow> u32 \<Rightarrow> u32 \<Rightarrow> u32 \<Rightarrow> gfx_call list" where
  "copy_rect d buffer_ok src_x src_y dest_x dest_y w h =
     (if isPaused d then []
      else if buffer_ok then [ReadRect src_x src_y w h, PushImage dest_x dest_y w h]
      else copy_rect_rows src_x src_y dest_x dest_y w h 0)"

definition area_update_start :: "driver \<Rightarrow> u32 \<Rightarrow> u32 \<Rightarrow> u32 \<Rightarrow> u32 \<Rightarrow> driver \<times> gfx_call list" where
  "area_update_start d x y w h =
     (let d' = d\<lparr>updateX := x, updateY := y, updateW := w, updateH := h, pixelCount := 0\<rparr>
      in (d', if \<not> isPaused d' then [StartWrite, SetAddrWindow x y w h] else []))"

text \<open>The \<open>for\<close> loop of \<open>area_update_data\<close>, from counter \<open>i\<close> on.\<close>

function area_update_data_loop :: "driver \<Rightarrow> pixbuf \<Rightarrow> u32 \<Rightarrow> u32 \<Rightarrow> error + gfx_call list" where
  "area_update_data_loop d pixels pixel i =
     (if i < pixel then
        (if updateW d = 0 then Inl DivisionByZero
         else
           (let pos = pixelCount d + i;
                px = updateX d + (pos mod updateW d);
                py = updateY d + (pos div updateW d);
                color = swap16 (pixels (unat i))
            in (case area_update_data_loop d pixels pixel (i + 1) of
                  Inl e \<Rightarrow> Inl e
                | Inr cs \<Rightarrow> Inr (WritePixel px py color # cs))))
      else Inr [])"
  by pat_completeness auto

termination area_update_data_loop
  by (relation "measure (\<lambda>(d, pixels, pixel, i). unat pixel - unat i)")
     (auto simp: unat_succ_below word_less_nat_alt)

declare area_update_data_loop.simps [simp del]

definition area_update_data :: "driver \<Rightarrow> pixbuf \<Rightarrow> u32 \<Rightarrow> error + driver \<times> gfx_call list" where
  "area_update_data d data pixel =
     (if isPaused d then Inr (d\<lparr>pixelCount := pixelCount d + pixel\<rparr>, [])
      else
        (case area_update_data_loop d data pixel 0 of
           Inl e \<Rightarrow> Inl e
         | Inr cs \<Rightarrow> Inr (d\<lparr>pixelCount := pixelCount d + pixel\<rparr>, cs)))"

definition area_update_end :: "driver \<Rightarrow> driver \<times> gfx_call list" where
  "area_update_end d = (d\<lparr>pixelCount := 0\<rparr>, if \<not> isPaused d then [EndWrite] else [])"

text \<open>
  The status helpers. \<open>width\<close> and \<open>height\<close> are what \<open>_gfx->width()\<close> and
  \<open>_gfx->height()\<close> return (\<open>int32_t\<close>); \<open>title.length() * 12\<close> is unsigned, so the
  subtraction and the division by 2 are unsigned 32-bit, and the result is cut to an
  \<open>int16_t\<close>.
\<close>

definition printScreen :: "driver \<Rightarrow> int \<Rightarrow> int \<Rightarrow> string \<Rightarrow> string \<Rightarrow> color \<Rightarrow> gfx_call list" where
  "printScreen d width height title msg color =
     (if isPaused d then []
      else
        (let titleX = (ucast (((word_of_int width :: u32) - word_of_nat (length title) * 12) div 2) :: u16);
             msgX = (ucast (((word_of_int width :: u32) - word_of_nat (length msg) * 12) div 2) :: u16);
             centerY = (word_of_int (height sdiv 2) :: u16)
         in [FillScreen TFT_BLACK,
             SetTextColor color,
             SetTextSize 2,
             SetCursor (if 0 <s titleX then sint titleX else 10) (sint centerY - 30),
             Println title,
             SetCursor (if 0 <s msgX then sint msgX else 10) (sint centerY + 10),
             Println msg]))"

definition print :: "driver \<Rightarrow> string \<Rightarrow> gfx_call list" where
  "print d text = (if isPaused d then [] else [Print text])"

definition clear :: "driver \<Rightarrow> u16 \<Rightarrow> gfx_call list" where
  "clear d color = (if isPaused d then [] else [FillScreen (RGB565 color)])"

text \<open>
  One callback of the protocol layer (the \<open>VNCdisplay\<close> interface), and the driver
  servicing a sequence of them; the first fault ends the run.
\<close>

datatype driver_op =
    Draw_area u32 u32 u32 u32 pixbuf
  | Draw_rect u32 u32 u32 u32 u16
  | Copy_rect bool u32 u32 u32 u32 u32 u32
  | Area_update_start u32 u32 u32 u32
  | Area_update_data pixbuf u32
  | Area_update_end

fun driver_call :: "driver \<Rightarrow> driver_op \<Rightarrow> error + driver \<times> gfx_call list" where
  "driver_call d (Draw_area x y w h data) =
     (case draw_area d x y w h data of Inl e \<Rightarrow> Inl e | Inr cs \<Rightarrow> Inr (d, cs))"
| "driver_call d (Draw_rect x y w h color) = Inr (d, draw_rect d x y w h color)"
| "driver_call d (Copy_rect buffer_ok src_x src_y dest_x dest_y w h) =
     Inr (d, copy_rect d buffer_ok src_x src_y dest_x dest_y w h)"
| "driver_call d (Area_update_start x y w h) = Inr (area_update_start d x y w h)"
| "driver_call d (Area_update_data data pixel) = area_update_data d data pixel"
| "driver_call d Area_update_end = Inr (area_update_end d)"

fun driver_calls :: "driver \<Rightarrow> driver_op list \<Rightarrow> error + driver \<times> gfx_call list" where
  "driver_calls d [] = Inr (d, [])"
| "driver_calls d (c # cs) =
     (case driver_call d c of
        Inl e \<Rightarrow> Inl e
      | Inr (d', out) \<Rightarrow>
          (case driver_calls d' cs of
             Inl e \<Rightarrow> Inl e
           | Inr (d'', out') \<Rightarrow> Inr (d'', out @ out')))"

section \<open>main.cpp\<close>

text \<open>
  Calls made on the \<open>arduinoVNC\<close> client, in call order: what the sketch sends to the
  remote session.
\<close>

datatype vnc_call =
    MouseEvent int int u8
  | KeyEvent u32 nat
  | ForceFullUpdate
  | Reconnect

text \<open>
  What \<open>M5.Touch.getCount()\<close> and \<open>M5.Touch.getDetail()\<close> return when a function reads
  them. The coordinates are 16-bit in M5Unified, so the sketch's \<open>int32_t\<close> differences
  of them do not overflow; they are \<open>int\<close> here.
\<close>

record touch =
  getCount :: nat
  touch_x :: int
  touch_y :: int
  isPressed :: bool

text \<open>
  The settings of \<open>user_setting.h\<close> that the screens print, and the panel's
  \<open>width()\<close> and \<open>height()\<close>.
\<close>

record config =
  WIFI_SSID :: string
  VNC_HOST :: string
  VNC_PORT :: nat
  display_width :: int
  display_height :: int

text \<open>The globals of the sketch, with the two traces.\<close>

record sketch =
  vncDisplay :: "driver option"
  vnc :: bool
  cardkb_available :: bool
  lastTouchX :: int
  lastTouchY :: int
  wasTouched :: bool
  twoFingerScrollActive :: bool
  scrollStartY :: int
  lastScrollY :: int
  lastScrollTime :: u32
  wifiConnected :: bool
  vncConnected :: bool
  vncScreenPaused :: bool
  showingInfoScreen :: bool
  screenJustSwitched :: bool
  lastThreeTouchTime :: u32
  swipeInProgress :: bool
  swipeStartY :: int
  swipeStartX :: int
  swipeStartTime :: u32
  display :: "gfx_call list"
  remote :: "vnc_call list"

definition SCROLL_THRESHOLD :: int where "SCROLL_THRESHOLD = 50"
definition SCROLL_MIN_INTERVAL :: u32 where "SCROLL_MIN_INTERVAL = 100"
definition THREE_TOUCH_DEBOUNCE :: u32 where "THREE_TOUCH_DEBOUNCE = 500"
definition SWIPE_TOP_THRESHOLD :: int where "SWIPE_TOP_THRESHOLD = 50"
definition SWIPE_MIN_DISTANCE :: int where "SWIPE_MIN_DISTANCE = 100"
definition SWIPE_MAX_TIME :: u32 where "SWIPE_MAX_TIME = 1000"

text \<open>The globals' initialisers; \<open>vncDisplay\<close> and \<open>vnc\<close> start as \<open>nullptr\<close>.\<close>

definition initial :: sketch where
  "initial =
     \<lparr>vncDisplay = None, vnc = False, cardkb_available = False,
      lastTouchX = 0, lastTouchY = 0, wasTouched = False,
      twoFingerScrollActive = False, scrollStartY = 0, lastScrollY = 0, lastScrollTime = 0,
      wifiConnected = False, vncConnected = False,
      vncScreenPaused = False, showingInfoScreen = False, screenJustSwitched = False,
      lastThreeTouchTime = 0,
      swipeInProgress = False, swipeStartY = 0, swipeStartX = 0, swipeStartTime = 0,
      display = [], remote = []\<rparr>"

definition mouseEvent :: "int \<Rightarrow> int \<Rightarrow> u8 \<Rightarrow> sketch \<Rightarrow> sketch" where
  "mouseEvent mx my buttons s = s\<lparr>remote := remote s @ [MouseEvent mx my buttons]\<rparr>"

definition keyEvent :: "u32 \<Rightarrow> nat \<Rightarrow> sketch \<Rightarrow> sketch" where
  "keyEvent key down s = s\<lparr>remote := remote s @ [KeyEvent key down]\<rparr>"

definition forceFullUpdate :: "sketch \<Rightarrow> sketch" where
  "forceFullUpdate s = s\<lparr>remote := remote s @ [ForceFullUpdate]\<rparr>"

definition reconnect :: "sketch \<Rightarrow> sketch" where
  "reconnect s = s\<lparr>remote := remote s @ [Reconnect]\<rparr>"

definition draw :: "gfx_call list \<Rightarrow> sketch \<Rightarrow> sketch" where
  "draw cs s = s\<lparr>display := display s @ cs\<rparr>"

text \<open>Arduino's \<open>String(n)\<close> for an unsigned number: its decimal digits.\<close>

fun String_of :: "nat \<Rightarrow> string" where
  "String_of n =
     (if n < 10 then [char_of (48 + n)]
      else String_of (n div 10) @ [char_of (48 + n mod 10)])"

declare String_of.simps [simp del]

definition getVNCAddress :: "config \<Rightarrow> string" where
  "getVNCAddress cfg = VNC_HOST cfg @ '':'' @ String_of (VNC_PORT cfg)"

definition displayStatus :: "config \<Rightarrow> string \<Rightarrow> string \<Rightarrow> color \<Rightarrow> sketch \<Rightarrow> sketch" where
  "displayStatus cfg title message color s =
     (case vncDisplay s of
        None \<Rightarrow> s
      | Some d \<Rightarrow>
          draw (printScreen d (display_width cfg) (display_height cfg) title message color) s)"

definition pauseVNCScreen :: "sketch \<Rightarrow> sketch" where
  "pauseVNCScreen s =
     (case vncDisplay s of
        None \<Rightarrow> s
      | Some d \<Rightarrow> s\<lparr>vncDisplay := Some (setPaused True d), vncScreenPaused := True\<rparr>)"

text \<open>
  \<open>connected\<close> is what \<open>vnc->connected()\<close> returns when the function asks; the session
  belongs to the protocol library.
\<close>

definition resumeVNCScreen :: "bool \<Rightarrow> sketch \<Rightarrow> sketch" where
  "resumeVNCScreen connected s =
     (case vncDisplay s of
        None \<Rightarrow> s
      | Some d \<Rightarrow>
          (let s1 = s\<lparr>vncDisplay := Some (setPaused False d), vncScreenPaused := False\<rparr>
           in if vnc s1 \<and> connected then forceFullUpdate s1 else s1))"

definition displayConnectionInfo :: "config \<Rightarrow> sketch \<Rightarrow> sketch" where
  "displayConnectionInfo cfg s =
     (let W = display_width cfg;
          H = display_height cfg;
          y0 = 110;
          lineHeight = 90;
          y1 = y0 + lineHeight;
          y2 = y1 + lineHeight;
          y3 = y2 + (lineHeight + 20)
      in draw
           ([FillScreen TFT_BLACK,
             FillRectI 0 0 W 70 TFT_NAVY,
             SetTextColor TFT_WHITE,
             SetTextDatum MC_DATUM,
             SetFont FreeSansBold18pt7b,
             DrawString ''Connection Info'' (W sdiv 2) 35,
             SetFont FreeSansBold12pt7b,
             SetTextDatum ML_DATUM,
             SetTextColor TFT_CYAN,
             DrawString ''WiFi Network'' 40 y0,
             SetTextColor TFT_WHITE,
             SetFont FreeSans12pt7b,
             DrawString (WIFI_SSID cfg) 40 (y0 + 40),
             SetFont FreeSansBold12pt7b,
             SetTextColor TFT_GREEN,
             DrawString ''VNC Server'' 40 y1,
             SetTextColor TFT_WHITE,
             SetFont FreeSans12pt7b,
             DrawString (VNC_HOST cfg) 40 (y1 + 40),
             SetFont FreeSansBold12pt7b,
             SetTextColor TFT_YELLOW,
             DrawString ''Port'' 40 y2,
             SetTextColor TFT_WHITE,
             SetFont FreeSans12pt7b,
             DrawString (String_of (VNC_PORT cfg)) 40 (y2 + 40),
             SetFont FreeSans9pt7b,
             SetTextDatum MC_DATUM]
            @ (if wifiConnected s then
                 [FillCircle (W sdiv 4) y3 12 TFT_GREEN,
                  SetTextColor TFT_GREEN,
                  DrawString ''WiFi OK'' (W sdiv 4) (y3 + 28)]
               else
                 [FillCircle (W sdiv 4) y3 12 TFT_RED,
                  SetTextColor TFT_RED,
                  DrawString ''WiFi Disconnected'' (W sdiv 4) (y3 + 28)])
            @ (if vncConnected s then
                 [FillCircle (W * 3 sdiv 4) y3 12 TFT_GREEN,
                  SetTextColor TFT_GREEN,
                  DrawString ''VNC Connected'' (W * 3 sdiv 4) (y3 + 28)]
               else
                 [FillCircle (W * 3 sdiv 4) y3 12 TFT_RED,
                  SetTextColor TFT_RED,
                  DrawString ''VNC Disconnected'' (W * 3 sdiv 4) (y3 + 28)])
            @ [SetFont FreeSans12pt7b,
               SetTextColor TFT_LIGHTGREY,
               SetTextDatum MC_DATUM,
               DrawString ''Touch with 3 fingers to return to VNC'' (W sdiv 2) (H - 30)])
           s)"

definition showInfoScreen :: "config \<Rightarrow> sketch \<Rightarrow> sketch" where
  "showInfoScreen cfg s =
     (let s1 = (if vnc s \<and> wasTouched s
                then (mouseEvent (lastTouchX s) (lastTouchY s) 0 s)\<lparr>wasTouched := False\<rparr>
                else s);
          s2 = (if twoFingerScrollActive s1 then s1\<lparr>twoFingerScrollActive := False\<rparr> else s1);
          s3 = pauseVNCScreen s2;
          s4 = s3\<lparr>showingInfoScreen := True\<rparr>
      in displayConnectionInfo cfg s4)"

definition showVNCScreen :: "bool \<Rightarrow> sketch \<Rightarrow> sketch" where
  "showVNCScreen connected s =
     resumeVNCScreen connected (draw [FillScreen TFT_BLACK] (s\<lparr>showingInfoScreen := False\<rparr>))"

text \<open>
  \<open>t\<close> is the touch state the function reads, \<open>now\<close> what \<open>millis()\<close> returns
  (\<open>uint32_t\<close>, so elapsed times are differences modulo \<open>2^32\<close>).
\<close>

definition checkMultiTouch :: "touch \<Rightarrow> u32 \<Rightarrow> bool \<Rightarrow> sketch \<Rightarrow> sketch" where
  "checkMultiTouch t now connected s =
     (if getCount t \<ge> 3 then
        (if now - lastThreeTouchTime s > THREE_TOUCH_DEBOUNCE then
           (let s1 = s\<lparr>lastThreeTouchTime := now\<rparr>
            in if showingInfoScreen s1 then
                 showVNCScreen connected (s1\<lparr>screenJustSwitched := True\<rparr>)
               else if vnc s1 \<and> connected then forceFullUpdate s1
               else s1)
         else s)
      else s)"

definition checkSwipeGesture :: "config \<Rightarrow> touch \<Rightarrow> u32 \<Rightarrow> sketch \<Rightarrow> sketch" where
  "checkSwipeGesture cfg t now s =
     (if getCount t \<noteq> 1 then s\<lparr>swipeInProgress := False\<rparr>
      else if isPressed t then
        (if \<not> swipeInProgress s then
           (if touch_y t \<le> SWIPE_TOP_THRESHOLD then
              (let s1 = s\<lparr>swipeInProgress := True, swipeStartX := touch_x t,
                           swipeStartY := touch_y t, swipeStartTime := now\<rparr>
               in if vnc s1 \<and> wasTouched s1
                  then (mouseEvent (lastTouchX s1) (lastTouchY s1) 0 s1)\<lparr>wasTouched := False\<rparr>
                  else s1)
            else s)
         else
           (let deltaY = touch_y t - swipeStartY s;
                deltaX = \<bar>touch_x t - swipeStartX s\<bar>;
                swipeTime = now - swipeStartTime s
            in if deltaY \<ge> SWIPE_MIN_DISTANCE \<and> deltaX < SWIPE_MIN_DISTANCE
                    \<and> swipeTime < SWIPE_MAX_TIME then
                 (showInfoScreen cfg (s\<lparr>screenJustSwitched := True\<rparr>))\<lparr>swipeInProgress := False\<rparr>
               else if swipeTime \<ge> SWIPE_MAX_TIME then s\<lparr>swipeInProgress := False\<rparr>
               else s))
      else s\<lparr>swipeInProgress := False\<rparr>)"

definition cardKBToKeysym :: "u8 \<Rightarrow> u32" where
  "cardKBToKeysym cardKBCode =
     (if 0x20 \<le> cardKBCode \<and> cardKBCode \<le> 0x7E then ucast cardKBCode
      else if cardKBCode = 0x0A \<or> cardKBCode = 0x0D then 0xff0d
      else if cardKBCode = 0x08 then 0xff08
      else if cardKBCode = 0x1B then 0xff1b
      else if cardKBCode = 0x09 then 0xff09
      else if cardKBCode = 0xb4 then 0xff51
      else if cardKBCode = 0xb7 then 0xff53
      else if cardKBCode = 0xb5 then 0xff52
      else if cardKBCode = 0xb6 then 0xff54
      else if cardKBCode = 0xff then 0xffff
      else 0)"

text \<open>
  \<open>wire\<close> is the byte the I2C read delivers, \<open>None\<close> when \<open>Wire.available()\<close> is 0.
\<close>

definition cardkb_getch :: "u8 option \<Rightarrow> u8" where
  "cardkb_getch wire = (case wire of None \<Rightarrow> 0 | Some r \<Rightarrow> r)"

definition handleTouch :: "touch \<Rightarrow> u32 \<Rightarrow> sketch \<Rightarrow> sketch" where
  "handleTouch t now s =
     (if \<not> vnc s then s
      else if swipeInProgress s then s
      else if screenJustSwitched s then
        (if getCount t = 0 then s\<lparr>screenJustSwitched := False\<rparr> else s)
      else if getCount t = 2 then
        (if \<not> twoFingerScrollActive s then
           (let s1 = s\<lparr>twoFingerScrollActive := True, scrollStartY := touch_y t,
                        lastScrollY := touch_y t\<rparr>
            in if wasTouched s1
               then (mouseEvent (lastTouchX s1) (lastTouchY s1) 0 s1)\<lparr>wasTouched := False\<rparr>
               else s1)
         else
           (let deltaY = lastScrollY s - touch_y t
            in if \<bar>deltaY\<bar> \<ge> SCROLL_THRESHOLD \<and> now - lastScrollTime s \<ge> SCROLL_MIN_INTERVAL then
                 (let s1 = (if deltaY > 0
                            then mouseEvent (touch_x t) (touch_y t) 0
                                   (mouseEvent (touch_x t) (touch_y t) 8 s)
                            else mouseEvent (touch_x t) (touch_y t) 0
                                   (mouseEvent (touch_x t) (touch_y t) 16 s))
                  in s1\<lparr>lastScrollY := touch_y t, lastScrollTime := now\<rparr>)
               else s))
      else
        (let s1 = (if twoFingerScrollActive s then s\<lparr>twoFingerScrollActive := False\<rparr> else s)
         in if getCount t = 1 \<and> isPressed t then
              (if \<not> wasTouched s1 \<or> touch_x t \<noteq> lastTouchX s1 \<or> touch_y t \<noteq> lastTouchY s1 then
                 (mouseEvent (touch_x t) (touch_y t) 1 s1)
                   \<lparr>lastTouchX := touch_x t, lastTouchY := touch_y t, wasTouched := True\<rparr>
               else s1)
            else if wasTouched s1 then
              (mouseEvent (lastTouchX s1) (lastTouchY s1) 0 s1)\<lparr>wasTouched := False\<rparr>
            else s1))"

text \<open>
  One pass of \<open>loop()\<close>. \<open>button\<close> is \<open>M5.BtnA.wasPressed() || M5.BtnPWR.wasPressed()\<close>;
  \<open>now_multi\<close> and \<open>now_swipe\<close> are the clock readings of the two gesture checks.
\<close>

definition loop :: "config \<Rightarrow> touch \<Rightarrow> u32 \<Rightarrow> u32 \<Rightarrow> bool \<Rightarrow> bool \<Rightarrow> u8 option \<Rightarrow> sketch \<Rightarrow> sketch" where
  "loop cfg t now_multi now_swipe connected button wire s =
     (let s1 = checkMultiTouch t now_multi connected s;
          s2 = checkSwipeGesture cfg t now_swipe s1;
          s3 = (if button then
                  (if vnc s2 \<and> \<not> connected
                   then reconnect (displayStatus cfg ''Reconnecting'' (getVNCAddress cfg) TFT_YELLOW s2)
                   else s2)
                else s2);
          c = (if cardkb_available s3 then cardkb_getch wire else 0)
      in if cardkb_available s3 \<and> c \<noteq> 0 then
           (let keysym = cardKBToKeysym c
            in if vnc s3 then keyEvent keysym 0 (keyEvent keysym 1 s3) else s3)
         else s3)"

text \<open>
  One pass of the \<open>while (true)\<close> body of \<open>vncTask\<close>. \<open>wifi_up\<close> is
  \<open>WiFi.status() == WL_CONNECTED\<close>; \<open>pump\<close> lists the callbacks that \<open>vnc->loop()\<close>
  makes on the driver during this pass.
\<close>

definition vncTask :: "config \<Rightarrow> bool \<Rightarrow> driver_op list \<Rightarrow> bool \<Rightarrow> touch \<Rightarrow> u32 \<Rightarrow> sketch \<Rightarrow> error + sketch" where
  "vncTask cfg wifi_up pump connected t now s =
     (if \<not> wifi_up then
        Inr (displayStatus cfg ''WiFi Disconnected'' ''Reconnecting...'' TFT_RED
               (s\<lparr>wifiConnected := False\<rparr>))
      else
        (let s1 = s\<lparr>wifiConnected := True\<rparr>
         in if vnc s1 then
              (case (case vncDisplay s1 of
                       None \<Rightarrow> Inr s1
                     | Some d \<Rightarrow>
                         (case driver_calls d pump of
                            Inl e \<Rightarrow> Inl e
                          | Inr (d', out) \<Rightarrow> Inr (draw out (s1\<lparr>vncDisplay := Some d'\<rparr>)))) of
                 Inl e \<Rightarrow> Inl e
               | Inr s2 \<Rightarrow>
                   (if \<not> connected then
                      (let s3 = s2\<lparr>vncConnected := False\<rparr>
                       in if \<not> showingInfoScreen s3
                          then Inr (displayStatus cfg ''Connecting VNC'' (getVNCAddress cfg) TFT_GREEN s3)
                          else Inr s3)
                    else
                      (let s3 = s2\<lparr>vncConnected := True\<rparr>
                       in if \<not> vncScreenPaused s3 \<and> \<not> showingInfoScreen s3
                          then Inr (handleTouch t now s3)
                          else Inr s3)))
            else Inr s1))"

section \<open>Notions the properties are stated with\<close>

text \<open>
  A streaming update is fed as a list of chunks, each a buffer and its pixel count.
  \<open>total\<close> is the number of pixels fed, \<open>fed feeds k\<close> the \<open>k\<close>-th pixel fed over all
  chunks, and \<open>pixel_at x y w k\<close> the row-major position \<open>(x + k % w, y + k / w)\<close>.
\<close>

definition feed_ops :: "(pixbuf \<times> u32) list \<Rightarrow> driver_op list" where
  "feed_ops feeds = map (\<lambda>(data, n). Area_update_data data n) feeds"

definition total :: "(pixbuf \<times> u32) list \<Rightarrow> nat" where
  "total feeds = sum_list (map (\<lambda>(data, n). unat n) feeds)"

fun fed :: "(pixbuf \<times> u32) list \<Rightarrow> nat \<Rightarrow> u16" where
  "fed [] k = 0"
| "fed ((data, n) # fs) k = (if k < unat n then data k else fed fs (k - unat n))"

definition pixel_at :: "u32 \<Rightarrow> u32 \<Rightarrow> u32 \<Rightarrow> nat \<Rightarrow> u32 \<times> u32" where
  "pixel_at x y w k = (x + word_of_nat (k mod unat w), y + word_of_nat (k div unat w))"

text \<open>
  The draw calls the row-major rule predicts for a whole rectangle: the \<open>k\<close>-th is the
  \<open>k\<close>-th fed pixel, byte-swapped, written at \<open>pixel_at x y w k\<close>.
\<close>

definition row_major :: "u32 \<Rightarrow> u32 \<Rightarrow> u32 \<Rightarrow> u32 \<Rightarrow> (pixbuf \<times> u32) list \<Rightarrow> gfx_call list" where
  "row_major x y w h feeds =
     map (\<lambda>k. WritePixel (fst (pixel_at x y w k)) (snd (pixel_at x y w k)) (swap16 (fed feeds k)))
       [0..<unat w * unat h]"

text \<open>Two buffers for concrete runs: all zero, and \<open>1, 2, 3, \<dots>\<close>.\<close>

definition blank :: pixbuf where
  "blank i = 0"

definition ramp :: pixbuf where
  "ramp i = word_of_nat (Suc i)"

text \<open>
  Runs of the input functions. A tick of \<open>handleTouch\<close> or of \<open>checkSwipeGesture\<close> is
  the touch state it reads and the clock value it would read; an \<open>action\<close> is one call
  of \<open>handleTouch\<close> or one pass of \<open>loop()\<close>, the two ways the sketch's state moves.
\<close>

fun handleTouch_ticks :: "(touch \<times> u32) list \<Rightarrow> sketch \<Rightarrow> sketch" where
  "handleTouch_ticks [] s = s"
| "handleTouch_ticks ((t, now) # ts) s = handleTouch_ticks ts (handleTouch t now s)"


datatype action = Touch touch u32 | Pass touch u32 u32 bool bool "u8 option"

fun act :: "config \<Rightarrow> action \<Rightarrow> sketch \<Rightarrow> sketch" where
  "act cfg (Touch t now) s = handleTouch t now s"
| "act cfg (Pass t now_multi now_swipe connected button wire) s =
     loop cfg t now_multi now_swipe connected button wire s"

text \<open>
  \<open>run\<close> performs a list of actions; \<open>touch_sent\<close> collects what the \<open>handleTouch\<close>
  calls of a run send to the session; an action is \<open>touching\<close> unless it is a
  \<open>handleTouch\<close> call that reads touch count 0.
\<close>

fun run :: "config \<Rightarrow> action list \<Rightarrow> sketch \<Rightarrow> sketch" where
  "run cfg [] s = s"
| "run cfg (a # as) s = run cfg as (act cfg a s)"

fun touch_sent :: "config \<Rightarrow> action list \<Rightarrow> sketch \<Rightarrow> vnc_call list" where
  "touch_sent cfg [] s = []"
| "touch_sent cfg (Touch t now # as) s =
     drop (length (remote s)) (remote (handleTouch t now s)) @ touch_sent cfg as (handleTouch t now s)"
| "touch_sent cfg (a # as) s = touch_sent cfg as (act cfg a s)"

fun touching :: "action \<Rightarrow> bool" where
  "touching (Touch t now) = (getCount t \<noteq> 0)"
| "touching a = True"

text \<open>
  A scroll tick on the wire is a pointer event with a wheel button (\<open>0b01000\<close> or
  \<open>0b10000\<close>). \<open>scroll_times\<close> lists the clock values of the \<open>handleTouch\<close> calls of a run
  that sent one.
\<close>

fun wheel :: "vnc_call \<Rightarrow> bool" where
  "wheel (MouseEvent mx my buttons) = (buttons = 8 \<or> buttons = 16)"
| "wheel c = False"

definition wheel_events :: "sketch \<Rightarrow> vnc_call list" where
  "wheel_events s = filter wheel (remote s)"

fun scroll_times :: "config \<Rightarrow> action list \<Rightarrow> sketch \<Rightarrow> u32 list" where
  "scroll_times cfg [] s = []"
| "scroll_times cfg (Touch t now # as) s =
     (if wheel_events (handleTouch t now s) = wheel_events s then [] else [now])
       @ scroll_times cfg as (handleTouch t now s)"
| "scroll_times cfg (a # as) s = scroll_times cfg as (act cfg a s)"

text \<open>
  The two tests the gestures make: the scroll threshold and interval against the anchor
  \<open>lastScrollY\<close> and \<open>lastScrollTime\<close>, and the swipe's distance, drift and time against
  its recorded start.
\<close>

definition scroll_due :: "touch \<Rightarrow> u32 \<Rightarrow> sketch \<Rightarrow> bool" where
  "scroll_due t now s \<longleftrightarrow>
     SCROLL_THRESHOLD \<le> \<bar>lastScrollY s - touch_y t\<bar> \<and> SCROLL_MIN_INTERVAL \<le> now - lastScrollTime s"


text \<open>Concrete settings, states and touch samples for the examples.\<close>

definition tab5 :: config where
  "tab5 = \<lparr>WIFI_SSID = ''ssid'', VNC_HOST = ''192.168.1.100'', VNC_PORT = 5900,
            display_width = 1280, display_height = 720\<rparr>"

definition live_session :: sketch where
  "live_session = initial\<lparr>vncDisplay := Some M5GFX_VNCDriver, vnc := True\<rparr>"

definition fingers :: "nat \<Rightarrow> int \<Rightarrow> int \<Rightarrow> touch" where
  "fingers n tx ty = \<lparr>getCount = n, touch_x = tx, touch_y = ty, isPressed = True\<rparr>"

definition lifted :: touch where
  "lifted = \<lparr>getCount = 0, touch_x = 0, touch_y = 0, isPressed = False\<rparr>"

section \<open>The streaming loop\<close>

lemma area_update_data_loop_zero: "area_update_data_loop d data 0 i = Inr []"
  by (simp add: area_update_data_loop.simps)

lemma area_update_data_loop_eq:
  "updateW d \<noteq> 0 \<Longrightarrow>
   area_update_data_loop d data pixel i =
     Inr (map (\<lambda>k. WritePixel (updateX d + ((pixelCount d + word_of_nat k) mod updateW d))
                              (updateY d + ((pixelCount d + word_of_nat k) div updateW d))
                              (swap16 (data k)))
            [unat i..<unat pixel])"
proof (induction d data pixel i rule: area_update_data_loop.induct)
  case (1 d pixels pixel i)
  show ?case
  proof (cases "i < pixel")
    case True
    then have lt: "unat i < unat pixel"
      by (simp add: word_less_nat_alt)
    have step: "unat (i + 1) = Suc (unat i)"
      using True by (rule unat_succ_below)
    have IH: "area_update_data_loop d pixels pixel (i + 1) =
        Inr (map (\<lambda>k. WritePixel (updateX d + ((pixelCount d + word_of_nat k) mod updateW d))
                              (updateY d + ((pixelCount d + word_of_nat k) div updateW d))
                              (swap16 (pixels k)))
            [Suc (unat i)..<unat pixel])"
      using "1.IH" [OF True "1.prems" refl refl refl refl] "1.prems" step by simp
    show ?thesis
      using True "1.prems" lt
      by (subst area_update_data_loop.simps) (simp add: IH upt_conv_Cons Let_def)
  next
    case False
    then have "\<not> unat i < unat pixel"
      by (simp add: word_less_nat_alt)
    then show ?thesis
      using False by (subst area_update_data_loop.simps) simp
  qed
qed

lemma word_pos_mod:
  fixes w :: u32
  assumes "c + k < 2 ^ 32"
  shows "(word_of_nat c + word_of_nat k) mod w = word_of_nat ((c + k) mod unat w)"
    and "(word_of_nat c + word_of_nat k) div w = word_of_nat ((c + k) div unat w)"
proof -
  have "unat (word_of_nat (c + k) :: u32) = (c + k) mod 2 ^ LENGTH(32)"
    by (rule unat_of_nat)
  also have "\<dots> = c + k"
    using assms by simp
  finally have u: "unat (word_of_nat c + word_of_nat k :: u32) = c + k"
    by (simp only: of_nat_add)
  have m: "(c + k) mod unat w < 2 ^ 32"
    using assms by (rule le_less_trans [OF mod_less_eq_dividend])
  have q: "(c + k) div unat w < 2 ^ 32"
    using assms by (rule le_less_trans [OF div_le_dividend])
  have "unat ((word_of_nat c + word_of_nat k :: u32) mod w) = (c + k) mod unat w"
    by (simp only: unat_mod u)
  also have "\<dots> = unat (word_of_nat ((c + k) mod unat w) :: u32)"
    using m by (simp add: unat_of_nat)
  finally show "(word_of_nat c + word_of_nat k) mod w = word_of_nat ((c + k) mod unat w)"
    by (simp only: word_unat_eq_iff)
  have "unat ((word_of_nat c + word_of_nat k :: u32) div w) = (c + k) div unat w"
    by (simp only: unat_div u)
  also have "\<dots> = unat (word_of_nat ((c + k) div unat w) :: u32)"
    using q by (simp add: unat_of_nat)
  finally show "(word_of_nat c + word_of_nat k) div w = word_of_nat ((c + k) div unat w)"
    by (simp only: word_unat_eq_iff)
qed

lemma area_update_data_unpaused:
  assumes "\<not> isPaused d" and "updateW d \<noteq> 0" and "unat (pixelCount d) + unat n \<le> 2 ^ 32"
  shows "area_update_data d data n =
     Inr (d\<lparr>pixelCount := pixelCount d + n\<rparr>,
          map (\<lambda>k. WritePixel (fst (pixel_at (updateX d) (updateY d) (updateW d) (unat (pixelCount d) + k)))
                              (snd (pixel_at (updateX d) (updateY d) (updateW d) (unat (pixelCount d) + k)))
                              (swap16 (data k)))
            [0..<unat n])"
proof -
  have "\<And>k. k < unat n \<Longrightarrow>
      (pixelCount d + word_of_nat k) mod updateW d = word_of_nat ((unat (pixelCount d) + k) mod unat (updateW d))
    \<and> (pixelCount d + word_of_nat k) div updateW d = word_of_nat ((unat (pixelCount d) + k) div unat (updateW d))"
  proof -
    fix k assume "k < unat n"
    then have "unat (pixelCount d) + k < 2 ^ 32"
      using assms(3) by simp
    from word_pos_mod [OF this, of "updateW d"]
    show "(pixelCount d + word_of_nat k) mod updateW d = word_of_nat ((unat (pixelCount d) + k) mod unat (updateW d))
    \<and> (pixelCount d + word_of_nat k) div updateW d = word_of_nat ((unat (pixelCount d) + k) div unat (updateW d))"
      by simp
  qed
  then show ?thesis
    using assms(1,2)
    by (simp add: area_update_data_def area_update_data_loop_eq pixel_at_def)
qed

lemma total_zero_feeds:
  "updateW d \<noteq> 0 \<Longrightarrow> total feeds = 0 \<Longrightarrow> driver_calls d (feed_ops feeds) = Inr (d, [])"
proof (induction feeds)
  case Nil
  then show ?case by (simp add: feed_ops_def)
next
  case (Cons f fs)
  obtain data n where f: "f = (data, n)"
    by (cases f)
  from Cons.prems(2) have n: "n = 0" and fs: "total fs = 0"
    by (simp_all add: total_def f unat_eq_zero)
  have "area_update_data d data 0 = Inr (d, [])"
    by (simp add: area_update_data_def area_update_data_loop_zero)
  then show ?case
    using Cons.IH [OF Cons.prems(1) fs] by (simp add: feed_ops_def f n)
qed

lemma feeds_unpaused:
  "\<not> isPaused d \<Longrightarrow> updateW d \<noteq> 0 \<Longrightarrow> unat (pixelCount d) + total feeds \<le> 2 ^ 32 \<Longrightarrow>
   driver_calls d (feed_ops feeds)
     = Inr (d\<lparr>pixelCount := pixelCount d + word_of_nat (total feeds)\<rparr>,
            map (\<lambda>k. WritePixel
                       (fst (pixel_at (updateX d) (updateY d) (updateW d) (unat (pixelCount d) + k)))
                       (snd (pixel_at (updateX d) (updateY d) (updateW d) (unat (pixelCount d) + k)))
                       (swap16 (fed feeds k)))
              [0..<total feeds])"
proof (induction feeds arbitrary: d)
  case Nil
  then show ?case by (simp add: feed_ops_def total_def)
next
  case (Cons f fs)
  obtain data n where f: "f = (data, n)"
    by (cases f)
  let ?d1 = "d\<lparr>pixelCount := pixelCount d + n\<rparr>"
  have tot: "total (f # fs) = unat n + total fs"
    by (simp add: f total_def)
  have fit: "unat (pixelCount d) + unat n \<le> 2 ^ 32"
    using Cons.prems(3) tot by simp
  have first: "area_update_data d data n =
     Inr (?d1,
          map (\<lambda>k. WritePixel (fst (pixel_at (updateX d) (updateY d) (updateW d) (unat (pixelCount d) + k)))
                              (snd (pixel_at (updateX d) (updateY d) (updateW d) (unat (pixelCount d) + k)))
                              (swap16 (data k)))
            [0..<unat n])"
    using Cons.prems(1,2) fit by (rule area_update_data_unpaused)
  have rest: "driver_calls ?d1 (feed_ops fs)
     = Inr (?d1\<lparr>pixelCount := pixelCount ?d1 + word_of_nat (total fs)\<rparr>,
            map (\<lambda>k. WritePixel
                       (fst (pixel_at (updateX d) (updateY d) (updateW d) (unat (pixelCount d) + unat n + k)))
                       (snd (pixel_at (updateX d) (updateY d) (updateW d) (unat (pixelCount d) + unat n + k)))
                       (swap16 (fed fs k)))
              [0..<total fs])"
  proof (cases "total fs = 0")
    case True
    then show ?thesis
      using total_zero_feeds [of ?d1 fs] Cons.prems(2) by simp
  next
    case False
    then have "unat (pixelCount d) + unat n < 2 ^ 32"
      using Cons.prems(3) tot by simp
    then have pc1: "unat (pixelCount ?d1) = unat (pixelCount d) + unat n"
      by (simp add: unat_add_lem [THEN iffD1])
    show ?thesis
      using Cons.IH [of ?d1] Cons.prems tot pc1 by (simp add: add.assoc)
  qed
  have "[0..<unat n + total fs] = [0..<unat n] @ [unat n..<unat n + total fs]"
    by (rule upt_add_eq_append) simp
  moreover have "map (\<lambda>k. k + unat n) [0..<total fs] = [unat n..<unat n + total fs]"
    by (simp only: map_add_upt add.commute [of "total fs"])
  ultimately have split: "[0..<unat n + total fs] = [0..<unat n] @ map (\<lambda>k. k + unat n) [0..<total fs]"
    by simp
  have out1: "map (\<lambda>k. WritePixel
                       (fst (pixel_at (updateX d) (updateY d) (updateW d) (unat (pixelCount d) + k)))
                       (snd (pixel_at (updateX d) (updateY d) (updateW d) (unat (pixelCount d) + k)))
                       (swap16 (fed (f # fs) k)))
              [0..<unat n]
            = map (\<lambda>k. WritePixel (fst (pixel_at (updateX d) (updateY d) (updateW d) (unat (pixelCount d) + k)))
                              (snd (pixel_at (updateX d) (updateY d) (updateW d) (unat (pixelCount d) + k)))
                              (swap16 (data k)))
            [0..<unat n]"
    by (rule map_cong) (simp_all add: f)
  have out2: "map (\<lambda>k. WritePixel
                       (fst (pixel_at (updateX d) (updateY d) (updateW d) (unat (pixelCount d) + k)))
                       (snd (pixel_at (updateX d) (updateY d) (updateW d) (unat (pixelCount d) + k)))
                       (swap16 (fed (f # fs) k)))
              (map (\<lambda>k. k + unat n) [0..<total fs])
            = map (\<lambda>k. WritePixel
                       (fst (pixel_at (updateX d) (updateY d) (updateW d) (unat (pixelCount d) + unat n + k)))
                       (snd (pixel_at (updateX d) (updateY d) (updateW d) (unat (pixelCount d) + unat n + k)))
                       (swap16 (fed fs k)))
              [0..<total fs]"
    by (simp add: f o_def add.assoc add.commute [of "unat n"])
  have st: "?d1\<lparr>pixelCount := pixelCount ?d1 + word_of_nat (total fs)\<rparr>
          = d\<lparr>pixelCount := pixelCount d + word_of_nat (unat n + total fs)\<rparr>"
    by (simp add: add.assoc)
  have "driver_calls d (feed_ops (f # fs))
      = Inr (?d1\<lparr>pixelCount := pixelCount ?d1 + word_of_nat (total fs)\<rparr>,
             map (\<lambda>k. WritePixel (fst (pixel_at (updateX d) (updateY d) (updateW d) (unat (pixelCount d) + k)))
                              (snd (pixel_at (updateX d) (updateY d) (updateW d) (unat (pixelCount d) + k)))
                              (swap16 (data k)))
               [0..<unat n]
             @ map (\<lambda>k. WritePixel
                       (fst (pixel_at (updateX d) (updateY d) (updateW d) (unat (pixelCount d) + unat n + k)))
                       (snd (pixel_at (updateX d) (updateY d) (updateW d) (unat (pixelCount d) + unat n + k)))
                       (swap16 (fed fs k)))
              [0..<total fs])"
    using first rest by (simp add: feed_ops_def f)
  then show ?case
    unfolding tot split map_append out1 out2 st .
qed

section \<open>Row-major positions\<close>

lemma unat_word_of_nat_u32: "n < 2 ^ 32 \<Longrightarrow> unat (word_of_nat n :: u32) = n"
  by (simp add: unat_of_nat)

lemma pixel_at_inj:
  assumes fit: "unat w * unat h \<le> 2 ^ 32"
    and k: "k < unat w * unat h" and l: "l < unat w * unat h"
    and eq: "pixel_at x y w k = pixel_at x y w l"
  shows "k = l"
proof -
  have kb: "k < 2 ^ 32" and lb: "l < 2 ^ 32"
    using fit k l by simp_all
  have "k mod unat w < 2 ^ 32" "l mod unat w < 2 ^ 32" "k div unat w < 2 ^ 32" "l div unat w < 2 ^ 32"
    using kb lb
    by (auto intro: le_less_trans [OF mod_less_eq_dividend] le_less_trans [OF div_le_dividend])
  then have u: "unat (word_of_nat (k mod unat w) :: u32) = k mod unat w"
      "unat (word_of_nat (l mod unat w) :: u32) = l mod unat w"
      "unat (word_of_nat (k div unat w) :: u32) = k div unat w"
      "unat (word_of_nat (l div unat w) :: u32) = l div unat w"
    by (simp_all add: unat_word_of_nat_u32)
  from eq have "(word_of_nat (k mod unat w) :: u32) = word_of_nat (l mod unat w)"
    and "(word_of_nat (k div unat w) :: u32) = word_of_nat (l div unat w)"
    by (simp_all add: pixel_at_def)
  then have "k mod unat w = l mod unat w" and "k div unat w = l div unat w"
    using u by metis+
  then show ?thesis
    by (metis div_mult_mod_eq)
qed

lemma distinct_pixel_at:
  assumes "unat w * unat h \<le> 2 ^ 32"
  shows "distinct (map (pixel_at x y w) [0..<unat w * unat h])"
proof -
  have "inj_on (pixel_at x y w) (set [0..<unat w * unat h])"
    by (rule inj_onI) (use assms in \<open>auto intro: pixel_at_inj\<close>)
  then show ?thesis
    by (simp add: distinct_map)
qed

lemma set_pixel_at:
  "set (map (pixel_at x y w) [0..<unat w * unat h]) = {(x + i, y + j) | i j. i < w \<and> j < h}"
proof (rule set_eqI, rule iffI)
  fix p
  assume "p \<in> set (map (pixel_at x y w) [0..<unat w * unat h])"
  then obtain k where k: "k < unat w * unat h" and p: "p = pixel_at x y w k"
    by auto
  have w0: "0 < unat w"
    using k by (cases "unat w") simp_all
  have "k mod unat w < unat w"
    using w0 by simp
  moreover have "k div unat w < unat h"
    using k by (simp add: less_mult_imp_div_less mult.commute)
  moreover have "unat w < 2 ^ 32" "unat h < 2 ^ 32"
    using unsigned_less [of w] unsigned_less [of h] by simp_all
  ultimately have "(word_of_nat (k mod unat w) :: u32) < w" "(word_of_nat (k div unat w) :: u32) < h"
    by (simp_all add: word_less_nat_alt unat_word_of_nat_u32)
  then show "p \<in> {(x + i, y + j) | i j. i < w \<and> j < h}"
    unfolding p pixel_at_def by blast
next
  fix p
  assume "p \<in> {(x + i, y + j) | i j. i < w \<and> j < h}"
  then obtain i j where i: "i < w" and j: "j < h" and p: "p = (x + i, y + j)"
    by blast
  let ?k = "unat j * unat w + unat i"
  have iw: "unat i < unat w" and jh: "unat j < unat h"
    using i j by (simp_all add: word_less_nat_alt)
  have "?k < Suc (unat j) * unat w"
    using iw by simp
  also have "\<dots> \<le> unat h * unat w"
    using jh by (intro mult_le_mono1) simp
  finally have k: "?k < unat w * unat h"
    by (simp add: mult.commute)
  have "?k mod unat w = unat i" "?k div unat w = unat j"
    using iw by simp_all
  then have "pixel_at x y w ?k = p"
    by (simp add: pixel_at_def p)
  then show "p \<in> set (map (pixel_at x y w) [0..<unat w * unat h])"
    using k by (metis (no_types, lifting) atLeastLessThan_iff image_eqI set_map set_upt zero_le)
qed

section \<open>The paused adapter\<close>

lemma paused_call:
  "isPaused d \<Longrightarrow> \<exists>d'. driver_call d c = Inr (d', []) \<and> isPaused d'"
  by (cases c)
     (simp_all add: draw_area_def draw_rect_def copy_rect_def area_update_start_def
        area_update_data_def area_update_end_def Let_def)

lemma paused_calls:
  "isPaused d \<Longrightarrow> \<exists>d'. driver_calls d cs = Inr (d', []) \<and> isPaused d'"
proof (induction cs arbitrary: d)
  case Nil
  then show ?case by simp
next
  case (Cons c cs)
  from paused_call [OF Cons.prems, of c]
  obtain d1 where c: "driver_call d c = Inr (d1, [])" and p: "isPaused d1"
    by blast
  from Cons.IH [OF p] obtain d2 where "driver_calls d1 cs = Inr (d2, [])" and "isPaused d2"
    by blast
  with c show ?case by simp
qed

lemma paused_feeds:
  "isPaused d \<Longrightarrow>
   driver_calls d (feed_ops feeds)
     = Inr (d\<lparr>pixelCount := pixelCount d + sum_list (map snd feeds)\<rparr>, [])"
proof (induction feeds arbitrary: d)
  case Nil
  then show ?case by (simp add: feed_ops_def)
next
  case (Cons f fs)
  obtain data n where f: "f = (data, n)"
    by (cases f)
  have p: "isPaused (d\<lparr>pixelCount := pixelCount d + n\<rparr>)"
    using Cons.prems by simp
  show ?case
    using Cons.prems Cons.IH [OF p]
    by (simp add: feed_ops_def f area_update_data_def add.assoc)
qed

lemma unat_sum_list_u32:
  "unat (sum_list (map snd feeds) :: u32) = total feeds mod 2 ^ 32"
proof (induction feeds)
  case Nil
  then show ?case by (simp add: total_def)
next
  case (Cons f fs)
  obtain data n where f: "f = (data, n)"
    by (cases f)
  have "unat (n + sum_list (map snd fs)) = (unat n + unat (sum_list (map snd fs))) mod 2 ^ 32"
    by (simp add: unat_word_ariths)
  also have "\<dots> = (unat n + total fs mod 2 ^ 32) mod 2 ^ 32"
    by (simp only: Cons.IH)
  also have "\<dots> = (unat n + total fs) mod 2 ^ 32"
    by (simp add: mod_add_right_eq)
  finally show ?case
    by (simp add: f total_def)
qed

text \<open>
  C4: while the pause flag is set, every callback of the protocol layer (and so every
  sequence of them) calls nothing on the surface and leaves the flag set; each
  \<open>area_update_data\<close> still adds its pixel count to \<open>_pixelCount\<close>, so after a begin and
  any feeds the counter is the sum of the fed counts (a \<open>uint32_t\<close> sum: the total
  modulo \<open>2^32\<close>).
\<close>

theorem paused_adapter_draws_nothing_and_counts:
  assumes "isPaused d"
  shows "(\<exists>d'. driver_calls d ops = Inr (d', []) \<and> isPaused d')
       \<and> area_update_data d data n = Inr (d\<lparr>pixelCount := pixelCount d + n\<rparr>, [])
       \<and> driver_calls d (feed_ops feeds)
           = Inr (d\<lparr>pixelCount := pixelCount d + sum_list (map snd feeds)\<rparr>, [])
       \<and> (\<exists>d'. driver_calls d (Area_update_start x y w h # feed_ops feeds) = Inr (d', [])
               \<and> pixelCount d' = sum_list (map snd feeds)
               \<and> unat (pixelCount d') = total feeds mod 2 ^ 32)"
proof -
  let ?d0 = "d\<lparr>updateX := x, updateY := y, updateW := w, updateH := h, pixelCount := 0\<rparr>"
  have p0: "isPaused ?d0"
    using assms by simp
  have "driver_calls d (Area_update_start x y w h # feed_ops feeds)
      = Inr (?d0\<lparr>pixelCount := pixelCount ?d0 + sum_list (map snd feeds)\<rparr>, [])"
    using assms paused_feeds [OF p0, of feeds]
    by (simp add: area_update_start_def Let_def)
  then have "\<exists>d'. driver_calls d (Area_update_start x y w h # feed_ops feeds) = Inr (d', [])
               \<and> pixelCount d' = sum_list (map snd feeds)
               \<and> unat (pixelCount d') = total feeds mod 2 ^ 32"
    by (simp add: unat_sum_list_u32)
  moreover have "area_update_data d data n = Inr (d\<lparr>pixelCount := pixelCount d + n\<rparr>, [])"
    using assms by (simp add: area_update_data_def)
  ultimately show ?thesis
    using paused_calls [OF assms, of ops] paused_feeds [OF assms, of feeds] by blast
qed

theorem paused_adapter_draws_nothing_and_counts_witness:
  "isPaused (setPaused True M5GFX_VNCDriver)
   \<and> driver_calls (setPaused True M5GFX_VNCDriver)
        (Area_update_start 1 2 3 4 # feed_ops [(ramp, 5), (ramp, 7)])
       = Inr (\<lparr>isPaused = True, updateX = 1, updateY = 2, updateW = 3, updateH = 4,
               pixelCount = 12\<rparr>, [])
   \<and> driver_calls (setPaused True M5GFX_VNCDriver)
        [Draw_area 0 0 2 2 ramp, Draw_rect 0 0 4 4 7, Copy_rect True 0 0 8 8 2 2,
         Copy_rect False 0 0 8 8 2 2]
       = Inr (setPaused True M5GFX_VNCDriver, [])"
  using paused_adapter_draws_nothing_and_counts
          [of "setPaused True M5GFX_VNCDriver"
              "[Draw_area 0 0 2 2 ramp, Draw_rect 0 0 4 4 7, Copy_rect True 0 0 8 8 2 2,
                Copy_rect False 0 0 8 8 2 2]"
              ramp 5 "[(ramp, 5), (ramp, 7)]" 1 2 3 4]
  by (simp add: setPaused_def M5GFX_VNCDriver_def feed_ops_def area_update_start_def
      area_update_data_def draw_area_def draw_rect_def copy_rect_def)

section \<open>Row-major streaming\<close>

text \<open>
  C5 as the spec states it fails past 32 bits. A rectangle of width \<open>2^31\<close> and height 3
  is fed as three chunks of \<open>2^31\<close> pixels; their counts sum to \<open>w * h\<close>. After the second
  chunk \<open>_pixelCount\<close> has wrapped to 0, so pixel number \<open>2^32\<close> is written at
  \<open>(0, 0)\<close>, where the row-major rule puts it at \<open>(0, 2)\<close>.
\<close>

theorem streaming_update_wraps_past_32_bits:
  "\<not> isPaused (fst (area_update_start M5GFX_VNCDriver 0 0 2147483648 3))
   \<and> total [(blank, 2147483648), (blank, 2147483648), (blank, 2147483648)]
       = unat (2147483648 :: u32) * unat (3 :: u32)
   \<and> \<not> isl (driver_calls (fst (area_update_start M5GFX_VNCDriver 0 0 2147483648 3))
              (feed_ops [(blank, 2147483648), (blank, 2147483648), (blank, 2147483648)]))
   \<and> snd (projr (driver_calls (fst (area_update_start M5GFX_VNCDriver 0 0 2147483648 3))
              (feed_ops [(blank, 2147483648), (blank, 2147483648), (blank, 2147483648)])))
         ! 4294967296 = WritePixel 0 0 0
   \<and> row_major 0 0 2147483648 3 [(blank, 2147483648), (blank, 2147483648), (blank, 2147483648)]
         ! 4294967296 = WritePixel 0 2 0"
proof -
  let ?d0 = "\<lparr>isPaused = False, updateX = 0, updateY = 0, updateW = 2147483648, updateH = 3,
              pixelCount = 0 :: u32\<rparr>"
  let ?d1 = "\<lparr>isPaused = False, updateX = 0, updateY = 0, updateW = 2147483648, updateH = 3,
              pixelCount = 2147483648 :: u32\<rparr>"
  have start: "fst (area_update_start M5GFX_VNCDriver 0 0 2147483648 3) = ?d0"
    by (simp add: area_update_start_def M5GFX_VNCDriver_def)
  have f1: "area_update_data ?d0 blank 2147483648 =
      Inr (?d1, map (\<lambda>k. WritePixel (fst (pixel_at 0 0 2147483648 k)) (snd (pixel_at 0 0 2147483648 k))
                      (swap16 (blank k))) [0..<2147483648])"
    using area_update_data_unpaused [of ?d0 2147483648 blank] by simp
  have f2: "area_update_data ?d1 blank 2147483648 =
      Inr (?d0, map (\<lambda>k. WritePixel (fst (pixel_at 0 0 2147483648 (2147483648 + k)))
                      (snd (pixel_at 0 0 2147483648 (2147483648 + k)))
                      (swap16 (blank k))) [0..<2147483648])"
    using area_update_data_unpaused [of ?d1 2147483648 blank] by simp
  have run: "driver_calls ?d0 (feed_ops [(blank, 2147483648), (blank, 2147483648), (blank, 2147483648)])
      = Inr (?d1,
          map (\<lambda>k. WritePixel (fst (pixel_at 0 0 2147483648 k)) (snd (pixel_at 0 0 2147483648 k))
                      (swap16 (blank k))) [0..<2147483648]
          @ map (\<lambda>k. WritePixel (fst (pixel_at 0 0 2147483648 (2147483648 + k)))
                      (snd (pixel_at 0 0 2147483648 (2147483648 + k)))
                      (swap16 (blank k))) [0..<2147483648]
          @ map (\<lambda>k. WritePixel (fst (pixel_at 0 0 2147483648 k)) (snd (pixel_at 0 0 2147483648 k))
                      (swap16 (blank k))) [0..<2147483648])"
    by (simp add: feed_ops_def f1 f2)
  have at: "(map (\<lambda>k. WritePixel (fst (pixel_at 0 0 2147483648 k)) (snd (pixel_at 0 0 2147483648 k))
                      (swap16 (blank k))) [0..<2147483648]
          @ map (\<lambda>k. WritePixel (fst (pixel_at 0 0 2147483648 (2147483648 + k)))
                      (snd (pixel_at 0 0 2147483648 (2147483648 + k)))
                      (swap16 (blank k))) [0..<2147483648]
          @ map (\<lambda>k. WritePixel (fst (pixel_at 0 0 2147483648 k)) (snd (pixel_at 0 0 2147483648 k))
                      (swap16 (blank k))) [0..<2147483648]) ! 4294967296 = WritePixel 0 0 0"
    by (simp add: nth_append pixel_at_def blank_def swap16_def)
  have want: "row_major 0 0 2147483648 3 [(blank, 2147483648), (blank, 2147483648), (blank, 2147483648)]
         ! 4294967296 = WritePixel 0 2 0"
    by (simp add: row_major_def pixel_at_def blank_def swap16_def)
  show ?thesis
    unfolding start run using at want by (simp add: total_def)
qed

text \<open>
  C5, amended: for every rectangle opened with \<open>area_update_start(x, y, w, h)\<close> with
  \<open>w > 0\<close> and at most \<open>2^32\<close> pixels, and every sequence of feeds whose pixel counts
  sum to \<open>w * h\<close>, with the pause flag clear the feeds succeed and make exactly the calls
  of \<open>row_major\<close>: the \<open>k\<close>-th fed pixel, byte-swapped, is written at
  \<open>(x + k % w, y + k / w)\<close>; these positions are pairwise different and are exactly
  the \<open>(x + i, y + j)\<close> with \<open>i < w\<close> and \<open>j < h\<close>.
\<close>

theorem streaming_update_row_major:
  assumes "\<not> isPaused d" and "w \<noteq> 0" and "total feeds = unat w * unat h"
    and "unat w * unat h \<le> 2 ^ 32"
  shows "driver_calls (fst (area_update_start d x y w h)) (feed_ops feeds)
           = Inr ((fst (area_update_start d x y w h))\<lparr>pixelCount := w * h\<rparr>,
                  row_major x y w h feeds)
       \<and> distinct (map (pixel_at x y w) [0..<unat w * unat h])
       \<and> set (map (pixel_at x y w) [0..<unat w * unat h]) = {(x + i, y + j) | i j. i < w \<and> j < h}"
proof -
  let ?d0 = "fst (area_update_start d x y w h)"
  have d0: "\<not> isPaused ?d0" "updateW ?d0 \<noteq> 0" "unat (pixelCount ?d0) + total feeds \<le> 2 ^ 32"
    "updateX ?d0 = x" "updateY ?d0 = y" "updateW ?d0 = w" "pixelCount ?d0 = 0"
    using assms by (simp_all add: area_update_start_def Let_def)
  have "word_of_nat (unat w * unat h) = w * h"
    by simp
  then show ?thesis
    using feeds_unpaused [OF d0(1,2,3)] distinct_pixel_at [OF assms(4)] set_pixel_at [of x y w h]
    by (simp add: d0(4-7) assms(3) row_major_def)
qed

lemma row_major_2x2:
  "row_major 10 20 2 2 [(ramp, 3), (ramp, 1)]
     = [WritePixel 10 20 256, WritePixel 11 20 512, WritePixel 10 21 768, WritePixel 11 21 256]"
  by code_simp

theorem streaming_update_row_major_witness:
  "\<not> isPaused M5GFX_VNCDriver \<and> total [(ramp, 3), (ramp, 1)] = unat (2 :: u32) * unat (2 :: u32)
   \<and> driver_calls (fst (area_update_start M5GFX_VNCDriver 10 20 2 2)) (feed_ops [(ramp, 3), (ramp, 1)])
       = Inr (\<lparr>isPaused = False, updateX = 10, updateY = 20, updateW = 2, updateH = 2,
               pixelCount = 4\<rparr>,
              [WritePixel 10 20 256, WritePixel 11 20 512, WritePixel 10 21 768,
               WritePixel 11 21 256])"
  using streaming_update_row_major [of M5GFX_VNCDriver 2 "[(ramp, 3), (ramp, 1)]" 2 10 20]
  by (simp add: M5GFX_VNCDriver_def total_def area_update_start_def row_major_2x2)

section \<open>Zero-width streaming updates\<close>

text \<open>
  C1 as the spec states it fails: with the pause flag clear, a feed of one pixel into an
  update begun with width 0 evaluates \<open>pos % _updateW\<close> with \<open>_updateW = 0\<close>.
\<close>

theorem zero_width_feed_divides_by_zero:
  "\<not> isPaused (fst (area_update_start M5GFX_VNCDriver 0 0 0 1)) \<and>
   area_update_data (fst (area_update_start M5GFX_VNCDriver 0 0 0 1)) blank 1
     = Inl DivisionByZero"
  by (simp add: area_update_start_def M5GFX_VNCDriver_def area_update_data_def
      area_update_data_loop.simps)

text \<open>
  C1, amended: for every streaming update begun with width 0 while the pause flag is
  set, a feed with any pixel count reaches no division or modulo; it draws nothing and
  only advances the pixel counter by the pixel count.
\<close>

theorem zero_width_feed_paused_no_division:
  assumes "isPaused d"
  shows "area_update_data (fst (area_update_start d x y 0 h)) data pixel =
           Inr ((fst (area_update_start d x y 0 h))\<lparr>pixelCount := pixel\<rparr>, [])"
  using assms by (simp add: area_update_start_def area_update_data_def Let_def)

theorem zero_width_feed_paused_no_division_witness:
  "isPaused (setPaused True M5GFX_VNCDriver) \<and>
   area_update_data (fst (area_update_start (setPaused True M5GFX_VNCDriver) 5 6 0 7)) blank 3 =
     Inr (\<lparr>isPaused = True, updateX = 5, updateY = 6, updateW = 0, updateH = 7, pixelCount = 3\<rparr>, [])"
  using zero_width_feed_paused_no_division [of "setPaused True M5GFX_VNCDriver" 5 6 7 blank 3]
  by (simp add: setPaused_def M5GFX_VNCDriver_def area_update_start_def)

section \<open>Resuming\<close>

text \<open>
  C9: a resume (\<open>setPaused(false)\<close> in \<open>resumeVNCScreen\<close>, which needs the driver to
  exist) sends exactly one \<open>forceFullUpdate\<close> when the session is connected and none when
  it is not; the same through \<open>showVNCScreen\<close>.
\<close>

theorem resume_forces_one_full_update:
  assumes "vncDisplay s = Some d"
  shows "vncDisplay (resumeVNCScreen connected s) = Some (setPaused False d)
       \<and> remote (resumeVNCScreen connected s)
           = remote s @ (if vnc s \<and> connected then [ForceFullUpdate] else [])
       \<and> remote (showVNCScreen connected s)
           = remote s @ (if vnc s \<and> connected then [ForceFullUpdate] else [])"
  using assms
  by (simp add: resumeVNCScreen_def showVNCScreen_def forceFullUpdate_def draw_def Let_def)

theorem resume_forces_one_full_update_witness:
  "vncDisplay (initial\<lparr>vncDisplay := Some (setPaused True M5GFX_VNCDriver), vnc := True\<rparr>)
     = Some (setPaused True M5GFX_VNCDriver)
   \<and> remote (resumeVNCScreen True
        (initial\<lparr>vncDisplay := Some (setPaused True M5GFX_VNCDriver), vnc := True\<rparr>))
       = [ForceFullUpdate]
   \<and> remote (resumeVNCScreen False
        (initial\<lparr>vncDisplay := Some (setPaused True M5GFX_VNCDriver), vnc := True\<rparr>))
       = []"
  using resume_forces_one_full_update
          [of "initial\<lparr>vncDisplay := Some (setPaused True M5GFX_VNCDriver), vnc := True\<rparr>"
              "setPaused True M5GFX_VNCDriver" True]
        resume_forces_one_full_update
          [of "initial\<lparr>vncDisplay := Some (setPaused True M5GFX_VNCDriver), vnc := True\<rparr>"
              "setPaused True M5GFX_VNCDriver" False]
  by (simp add: initial_def)

section \<open>Status helpers under pause\<close>

lemma handleTouch_display: "display (handleTouch t now s) = display s"
  by (simp add: handleTouch_def mouseEvent_def Let_def)

lemma handleTouch_vncDisplay: "vncDisplay (handleTouch t now s) = vncDisplay s"
  by (simp add: handleTouch_def mouseEvent_def Let_def)

lemma vncTask_paused:
  assumes "vncDisplay s = Some d" and "isPaused d"
  shows "\<exists>s' d'. vncTask cfg wifi_up pump connected t now s = Inr s' \<and> display s' = display s
            \<and> vncDisplay s' = Some d' \<and> isPaused d'"
proof (cases "wifi_up \<and> vnc s")
  case False
  then show ?thesis
    using assms by (auto simp add: vncTask_def displayStatus_def printScreen_def draw_def)
next
  case True
  from paused_calls [OF assms(2), of pump]
  obtain d' where run: "driver_calls d pump = Inr (d', [])" and p: "isPaused d'"
    by blast
  let ?s2 = "s\<lparr>wifiConnected := True, vncDisplay := Some d'\<rparr>"
  have st: "\<And>b. displayStatus cfg ''Connecting VNC'' (getVNCAddress cfg) TFT_GREEN (?s2\<lparr>vncConnected := b\<rparr>)
      = ?s2\<lparr>vncConnected := b\<rparr>"
    using p by (simp add: displayStatus_def printScreen_def draw_def)
  show ?thesis
    using True assms(1) run p
    by (simp add: vncTask_def Let_def draw_def st handleTouch_display handleTouch_vncDisplay)
qed

text \<open>
  C10: while the pause flag is set, \<open>printScreen\<close>, \<open>print\<close> and \<open>clear\<close> call nothing
  on the surface, so \<open>displayStatus\<close> leaves the surface as it is; \<open>setPaused(true)\<close>
  sets the flag, and after \<open>pauseVNCScreen\<close> a status message draws nothing. A whole
  pass of \<open>vncTask\<close> (its status messages, the protocol pump, \<open>handleTouch\<close>) with the
  driver paused leaves the surface as it is.
\<close>

theorem paused_status_helpers_draw_nothing:
  assumes "isPaused d"
  shows "printScreen d width height title msg color = []
       \<and> print d text = []
       \<and> clear d c = []
       \<and> isPaused (setPaused True d0)
       \<and> display (displayStatus cfg title msg color (s\<lparr>vncDisplay := Some d\<rparr>)) = display s
       \<and> display (displayStatus cfg title msg color (pauseVNCScreen s)) = display s
       \<and> (\<exists>s'. vncTask cfg wifi_up pump connected t now (s\<lparr>vncDisplay := Some d\<rparr>) = Inr s'
               \<and> display s' = display s)"
proof -
  have "\<exists>s'. vncTask cfg wifi_up pump connected t now (s\<lparr>vncDisplay := Some d\<rparr>) = Inr s'
               \<and> display s' = display s"
    using vncTask_paused [of "s\<lparr>vncDisplay := Some d\<rparr>" d cfg wifi_up pump connected t now] assms
    by auto
  then show ?thesis
    using assms
    by (simp add: printScreen_def print_def clear_def setPaused_def displayStatus_def
        pauseVNCScreen_def draw_def split: option.split)
qed

theorem paused_status_helpers_draw_nothing_witness:
  "isPaused (setPaused True M5GFX_VNCDriver)
   \<and> printScreen (setPaused True M5GFX_VNCDriver) 1280 720 ''WiFi Disconnected''
        ''Reconnecting...'' TFT_RED = []
   \<and> printScreen M5GFX_VNCDriver 1280 720 ''ab'' ''cde'' TFT_RED
        = [FillScreen TFT_BLACK, SetTextColor TFT_RED, SetTextSize 2, SetCursor 628 330,
           Println ''ab'', SetCursor 622 370, Println ''cde'']"
  using paused_status_helpers_draw_nothing
          [of "setPaused True M5GFX_VNCDriver" 1280 720 "''WiFi Disconnected''"
              "''Reconnecting...''" TFT_RED]
  by (simp add: setPaused_def M5GFX_VNCDriver_def printScreen_def word_sless_alt)

section \<open>Screen switching\<close>

lemma showInfoScreen_fields:
  "showingInfoScreen (showInfoScreen cfg s)"
  "screenJustSwitched (showInfoScreen cfg s) = screenJustSwitched s"
  "swipeInProgress (showInfoScreen cfg s) = swipeInProgress s"
  "lastScrollTime (showInfoScreen cfg s) = lastScrollTime s"
  "vncDisplay (showInfoScreen cfg s) = map_option (setPaused True) (vncDisplay s)"
  "display (showInfoScreen cfg s) = display (displayConnectionInfo cfg s)"
  "remote (showInfoScreen cfg s)
     = remote s @ (if vnc s \<and> wasTouched s then [MouseEvent (lastTouchX s) (lastTouchY s) 0] else [])"
  "cardkb_available (showInfoScreen cfg s) = cardkb_available s"
  "vnc (showInfoScreen cfg s) = vnc s"
  by (simp_all add: showInfoScreen_def displayConnectionInfo_def pauseVNCScreen_def draw_def
      mouseEvent_def Let_def split: option.split)


text \<open>
  C3 as the spec states it fails: in Live mode, three pointers after the debounce window
  leave the mode Live, the driver unpaused and the surface untouched; the sketch only
  asks the session for a full update.
\<close>

theorem three_fingers_in_live_mode_open_no_overlay:
  "\<not> showingInfoScreen live_session
   \<and> 3 \<le> getCount (fingers 3 100 100)
   \<and> THREE_TOUCH_DEBOUNCE < 1000 - lastThreeTouchTime live_session
   \<and> checkMultiTouch (fingers 3 100 100) 1000 True live_session
       = live_session\<lparr>lastThreeTouchTime := 1000, remote := [ForceFullUpdate]\<rparr>
   \<and> \<not> showingInfoScreen (checkMultiTouch (fingers 3 100 100) 1000 True live_session)
   \<and> vncDisplay (checkMultiTouch (fingers 3 100 100) 1000 True live_session) = Some M5GFX_VNCDriver
   \<and> \<not> isPaused M5GFX_VNCDriver
   \<and> display (checkMultiTouch (fingers 3 100 100) 1000 True live_session) = []"
  by (simp add: checkMultiTouch_def live_session_def fingers_def initial_def
      THREE_TOUCH_DEBOUNCE_def forceFullUpdate_def M5GFX_VNCDriver_def)

text \<open>
  C3, amended: on a tick with three or more pointers and more than the 500 ms debounce
  window since the last one, in Live mode the debounce timestamp is refreshed and one
  full-update request is sent if the session is connected; nothing else changes (the
  mode stays Live, the driver is not paused, nothing is drawn). Only in InfoOverlay mode
  does the gesture switch modes, back to Live, setting the transition guard.
\<close>

theorem three_fingers_refresh_or_return:
  assumes "getCount t \<ge> 3" and "now - lastThreeTouchTime s > THREE_TOUCH_DEBOUNCE"
  shows "(\<not> showingInfoScreen s \<longrightarrow>
            checkMultiTouch t now connected s
              = s\<lparr>lastThreeTouchTime := now,
                   remote := remote s @ (if vnc s \<and> connected then [ForceFullUpdate] else [])\<rparr>)
       \<and> (showingInfoScreen s \<longrightarrow>
            \<not> showingInfoScreen (checkMultiTouch t now connected s)
            \<and> screenJustSwitched (checkMultiTouch t now connected s))"
  using assms
  by (simp add: checkMultiTouch_def forceFullUpdate_def showVNCScreen_def resumeVNCScreen_def
      draw_def Let_def split: option.split)

theorem three_fingers_refresh_or_return_witness:
  "3 \<le> getCount (fingers 4 7 9)
   \<and> THREE_TOUCH_DEBOUNCE < 2000 - lastThreeTouchTime (live_session\<lparr>lastThreeTouchTime := 1400\<rparr>)
   \<and> checkMultiTouch (fingers 4 7 9) 2000 False (live_session\<lparr>lastThreeTouchTime := 1400\<rparr>)
       = live_session\<lparr>lastThreeTouchTime := 2000\<rparr>
   \<and> \<not> showingInfoScreen
        (checkMultiTouch (fingers 4 7 9) 2000 False
           (live_session\<lparr>lastThreeTouchTime := 1400, showingInfoScreen := True\<rparr>))"
  using three_fingers_refresh_or_return
          [of "fingers 4 7 9" 2000 "live_session\<lparr>lastThreeTouchTime := 1400\<rparr>" False]
        three_fingers_refresh_or_return
          [of "fingers 4 7 9" 2000
              "live_session\<lparr>lastThreeTouchTime := 1400, showingInfoScreen := True\<rparr>" False]
  by (simp add: live_session_def fingers_def initial_def THREE_TOUCH_DEBOUNCE_def)

section \<open>The transition guard\<close>

lemma handleTouch_guarded:
  "screenJustSwitched s \<Longrightarrow>
   handleTouch t now s
     = (if getCount t = 0 \<and> vnc s \<and> \<not> swipeInProgress s then s\<lparr>screenJustSwitched := False\<rparr> else s)"
  by (simp add: handleTouch_def)

lemma handleTouch_ticks_guarded:
  "screenJustSwitched s \<Longrightarrow> \<forall>(t, now) \<in> set ts. getCount t \<noteq> 0 \<Longrightarrow> handleTouch_ticks ts s = s"
  by (induction ts) (auto simp: handleTouch_guarded)

lemma loop_keeps_guard:
  "screenJustSwitched s \<Longrightarrow> screenJustSwitched (loop cfg t now_multi now_swipe connected button wire s)"
proof -
  assume g: "screenJustSwitched s"
  have 1: "\<And>c. screenJustSwitched (checkMultiTouch t now_multi c s)"
    using g
    by (simp add: checkMultiTouch_def forceFullUpdate_def showVNCScreen_def resumeVNCScreen_def
      draw_def Let_def split: option.split)
  have 2: "\<And>u. screenJustSwitched u \<Longrightarrow> screenJustSwitched (checkSwipeGesture cfg t now_swipe u)"
    by (simp add: checkSwipeGesture_def showInfoScreen_fields mouseEvent_def Let_def)
  have 3: "\<And>u title msg color. screenJustSwitched (displayStatus cfg title msg color u) = screenJustSwitched u"
       "\<And>u title msg color. vnc (displayStatus cfg title msg color u) = vnc u"
       "\<And>u title msg color. cardkb_available (displayStatus cfg title msg color u) = cardkb_available u"
    by (simp_all add: displayStatus_def draw_def split: option.split)
  have 4: "\<And>u. screenJustSwitched (reconnect u) = screenJustSwitched u"
    "\<And>u. vnc (reconnect u) = vnc u" "\<And>u. cardkb_available (reconnect u) = cardkb_available u"
    "\<And>u k p. screenJustSwitched (keyEvent k p u) = screenJustSwitched u"
    by (simp_all add: reconnect_def keyEvent_def)
  have 12: "\<And>c. screenJustSwitched (checkSwipeGesture cfg t now_swipe (checkMultiTouch t now_multi c s))"
    by (rule 2) (rule 1)
  show ?thesis
    by (simp add: loop_def Let_def 3 4 12)
qed

lemma guarded_run:
  "screenJustSwitched s \<Longrightarrow> \<forall>a \<in> set as. touching a \<Longrightarrow>
     screenJustSwitched (run cfg as s) \<and> touch_sent cfg as s = []"
proof (induction as arbitrary: s)
  case Nil
  then show ?case by simp
next
  case (Cons a as)
  show ?case
  proof (cases a)
    case (Touch t now)
    then have "getCount t \<noteq> 0"
      using Cons.prems(2) by simp
    then have "handleTouch t now s = s"
      using Cons.prems(1) by (simp add: handleTouch_guarded)
    then show ?thesis
      using Cons Touch by simp
  next
    case (Pass t n1 n2 c b w)
    then show ?thesis
      using Cons.IH [of "loop cfg t n1 n2 c b w s"] Cons.prems loop_keeps_guard [of s cfg t n1 n2 c b w]
      by simp
  qed
qed

lemma loop_lifted:
  assumes "getCount t = 0"
  shows "\<not> swipeInProgress (loop cfg t now_multi now_swipe connected button wire s)"
    and "vnc (loop cfg t now_multi now_swipe connected button wire s) = vnc s"
proof -
  have 1: "\<And>c. checkMultiTouch t now_multi c s = s"
    using assms by (simp add: checkMultiTouch_def)
  have 2: "checkSwipeGesture cfg t now_swipe s = s\<lparr>swipeInProgress := False\<rparr>"
    using assms by (simp add: checkSwipeGesture_def)
  have 3: "\<And>u title msg color. swipeInProgress (displayStatus cfg title msg color u) = swipeInProgress u"
       "\<And>u title msg color. vnc (displayStatus cfg title msg color u) = vnc u"
       "\<And>u title msg color. cardkb_available (displayStatus cfg title msg color u) = cardkb_available u"
    by (simp_all add: displayStatus_def draw_def split: option.split)
  have 4: "\<And>u. swipeInProgress (reconnect u) = swipeInProgress u"
    "\<And>u. vnc (reconnect u) = vnc u" "\<And>u. cardkb_available (reconnect u) = cardkb_available u"
    "\<And>u k p. swipeInProgress (keyEvent k p u) = swipeInProgress u"
    "\<And>u k p. vnc (keyEvent k p u) = vnc u"
    by (simp_all add: reconnect_def keyEvent_def)
  show "\<not> swipeInProgress (loop cfg t now_multi now_swipe connected button wire s)"
    by (simp add: loop_def Let_def 1 2 3 4)
  show "vnc (loop cfg t now_multi now_swipe connected button wire s) = vnc s"
    by (simp add: loop_def Let_def 1 2 3 4)
qed

lemma guard_clears_after_pass:
  assumes "screenJustSwitched s" and "vnc s" and "getCount t = 0"
  shows "handleTouch t now (loop cfg t now_multi now_swipe connected button wire s)
           = (loop cfg t now_multi now_swipe connected button wire s)\<lparr>screenJustSwitched := False\<rparr>"
  using assms loop_lifted [OF assms(3), of cfg now_multi now_swipe connected button wire s]
    loop_keeps_guard [OF assms(1), of cfg t now_multi now_swipe connected button wire]
  by (simp add: handleTouch_guarded)

text \<open>
  C6: with \<open>screenJustSwitched\<close> set, any number of \<open>handleTouch\<close> ticks with a nonzero
  touch count leave the state as it is (nothing is sent, the guard stays set); the next
  tick sends nothing either, and when it reads touch count 0 it clears the guard.
  \<open>handleTouch\<close> reaches the guard only with a client and no swipe in progress, and
  \<open>checkSwipeGesture\<close> leaves a swipe in progress only on a sample with exactly one
  touch. Every change of mode by \<open>checkMultiTouch\<close> or \<open>checkSwipeGesture\<close> sets the
  guard. The same holds with passes of \<open>loop()\<close> in between: in every run whose
  \<open>handleTouch\<close> calls all read a nonzero touch count, they send nothing and the guard
  is still set at the end; and once a pass of \<open>loop()\<close> has read a sample with touch
  count 0, the \<open>handleTouch\<close> tick that reads it clears the guard, whatever the swipe
  state was before.
\<close>

theorem transition_guard_suppresses_dispatch:
  assumes "screenJustSwitched s" and "\<forall>(t, now) \<in> set ts. getCount t \<noteq> 0"
  shows "handleTouch_ticks ts s = s
       \<and> remote (handleTouch t0 now0 (handleTouch_ticks ts s)) = remote s
       \<and> (getCount t0 = 0 \<and> vnc s \<and> \<not> swipeInProgress s \<longrightarrow>
            handleTouch t0 now0 (handleTouch_ticks ts s) = s\<lparr>screenJustSwitched := False\<rparr>)
       \<and> (showingInfoScreen (checkMultiTouch t1 now1 connected s1) \<noteq> showingInfoScreen s1 \<longrightarrow>
            screenJustSwitched (checkMultiTouch t1 now1 connected s1))
       \<and> (showingInfoScreen (checkSwipeGesture cfg t1 now1 s1) \<noteq> showingInfoScreen s1 \<longrightarrow>
            screenJustSwitched (checkSwipeGesture cfg t1 now1 s1))
       \<and> (swipeInProgress (checkSwipeGesture cfg t1 now1 s1) \<longrightarrow> getCount t1 = 1)
       \<and> ((\<forall>a \<in> set as. touching a) \<longrightarrow>
            screenJustSwitched (run cfg as s) \<and> touch_sent cfg as s = [])
       \<and> (getCount t0 = 0 \<and> vnc s \<longrightarrow>
            handleTouch t0 now0 (loop cfg t0 now_multi now_swipe connected button wire s)
              = (loop cfg t0 now_multi now_swipe connected button wire s)
                  \<lparr>screenJustSwitched := False\<rparr>)"
proof -
  have f: "getCount t0 = 0 \<and> vnc s \<longrightarrow>
            handleTouch t0 now0 (loop cfg t0 now_multi now_swipe connected button wire s)
              = (loop cfg t0 now_multi now_swipe connected button wire s)
                  \<lparr>screenJustSwitched := False\<rparr>"
    using guard_clears_after_pass [OF assms(1)] by blast
  have a: "handleTouch_ticks ts s = s"
    using assms by (rule handleTouch_ticks_guarded)
  have b: "showingInfoScreen (checkMultiTouch t1 now1 connected s1) \<noteq> showingInfoScreen s1 \<longrightarrow>
            screenJustSwitched (checkMultiTouch t1 now1 connected s1)"
    by (simp add: checkMultiTouch_def forceFullUpdate_def showVNCScreen_def resumeVNCScreen_def
      draw_def Let_def split: option.split)
  have c: "showingInfoScreen (checkSwipeGesture cfg t1 now1 s1) \<noteq> showingInfoScreen s1 \<longrightarrow>
            screenJustSwitched (checkSwipeGesture cfg t1 now1 s1)"
    by (simp add: checkSwipeGesture_def showInfoScreen_fields mouseEvent_def Let_def)
  have d: "swipeInProgress (checkSwipeGesture cfg t1 now1 s1) \<longrightarrow> getCount t1 = 1"
    by (simp add: checkSwipeGesture_def showInfoScreen_fields mouseEvent_def Let_def)
  have e: "(\<forall>a \<in> set as. touching a) \<longrightarrow>
            screenJustSwitched (run cfg as s) \<and> touch_sent cfg as s = []"
    using guarded_run [OF assms(1), of as cfg] by blast
  show ?thesis
    unfolding a using assms(1) b c d e f by (simp add: handleTouch_guarded)
qed

theorem transition_guard_suppresses_dispatch_witness:
  "screenJustSwitched (live_session\<lparr>screenJustSwitched := True\<rparr>)
   \<and> handleTouch_ticks [(fingers 3 10 10, 5), (fingers 1 10 10, 6), (fingers 2 10 90, 7)]
        (live_session\<lparr>screenJustSwitched := True\<rparr>)
       = live_session\<lparr>screenJustSwitched := True\<rparr>
   \<and> handleTouch lifted 8
        (handleTouch_ticks [(fingers 3 10 10, 5), (fingers 1 10 10, 6), (fingers 2 10 90, 7)]
           (live_session\<lparr>screenJustSwitched := True\<rparr>))
       = live_session
   \<and> remote (handleTouch (fingers 1 10 10) 9 live_session) = [MouseEvent 10 10 1]
   \<and> touch_sent tab5
        [Touch (fingers 1 10 10) 5, Pass (fingers 1 10 10) 6 6 True False None,
         Touch (fingers 2 10 90) 7]
        (live_session\<lparr>screenJustSwitched := True\<rparr>) = []"
  using transition_guard_suppresses_dispatch
          [of "live_session\<lparr>screenJustSwitched := True\<rparr>"
              "[(fingers 3 10 10, 5), (fingers 1 10 10, 6), (fingers 2 10 90, 7)]" lifted 8
              lifted 0 False live_session tab5
              "[Touch (fingers 1 10 10) 5, Pass (fingers 1 10 10) 6 6 True False None,
                Touch (fingers 2 10 90) 7]"]
  by (simp add: live_session_def fingers_def lifted_def initial_def handleTouch_def mouseEvent_def)

section \<open>Two-finger scroll\<close>

lemma handleTouch_scroll:
  assumes "vnc s" and "\<not> swipeInProgress s" and "\<not> screenJustSwitched s"
    and "getCount t = 2" and "twoFingerScrollActive s"
  shows "handleTouch t now s =
          (if scroll_due t now s
           then s\<lparr>lastScrollY := touch_y t, lastScrollTime := now,
                  remote := remote s @
                    [MouseEvent (touch_x t) (touch_y t) (if 0 < lastScrollY s - touch_y t then 8 else 16),
                     MouseEvent (touch_x t) (touch_y t) 0]\<rparr>
           else s)"
  using assms by (simp add: handleTouch_def mouseEvent_def scroll_due_def Let_def)

lemma handleTouch_no_scroll:
  assumes "\<not> (vnc s \<and> \<not> swipeInProgress s \<and> \<not> screenJustSwitched s \<and> getCount t = 2
              \<and> twoFingerScrollActive s \<and> scroll_due t now s)"
  shows "lastScrollTime (handleTouch t now s) = lastScrollTime s
       \<and> wheel_events (handleTouch t now s) = wheel_events s"
proof (cases "vnc s \<and> \<not> swipeInProgress s \<and> \<not> screenJustSwitched s")
  case False
  then show ?thesis
    by (auto simp add: handleTouch_def wheel_events_def)
next
  case live: True
  show ?thesis
  proof (cases "getCount t = 2")
    case two: True
    show ?thesis
    proof (cases "twoFingerScrollActive s")
      case True
      with assms live two have "\<not> scroll_due t now s"
        by blast
      then show ?thesis
        using live two True by (simp add: handleTouch_scroll)
    next
      case False
      then show ?thesis
        using live two by (simp add: handleTouch_def mouseEvent_def wheel_events_def Let_def)
    qed
  next
    case False
    then show ?thesis
      using live by (simp add: handleTouch_def mouseEvent_def wheel_events_def Let_def)
  qed
qed

lemma handleTouch_wheel:
  "wheel_events (handleTouch t now s) \<noteq> wheel_events s \<Longrightarrow>
     SCROLL_MIN_INTERVAL \<le> now - lastScrollTime s \<and> lastScrollTime (handleTouch t now s) = now"
  "wheel_events (handleTouch t now s) = wheel_events s \<Longrightarrow>
     lastScrollTime (handleTouch t now s) = lastScrollTime s"
proof -
  let ?fires = "vnc s \<and> \<not> swipeInProgress s \<and> \<not> screenJustSwitched s \<and> getCount t = 2
              \<and> twoFingerScrollActive s \<and> scroll_due t now s"
  have fires: "?fires \<Longrightarrow> lastScrollTime (handleTouch t now s) = now
      \<and> wheel_events (handleTouch t now s) \<noteq> wheel_events s
      \<and> SCROLL_MIN_INTERVAL \<le> now - lastScrollTime s"
    by (simp add: handleTouch_scroll wheel_events_def) (simp add: scroll_due_def)
  show "wheel_events (handleTouch t now s) \<noteq> wheel_events s \<Longrightarrow>
     SCROLL_MIN_INTERVAL \<le> now - lastScrollTime s \<and> lastScrollTime (handleTouch t now s) = now"
    using fires handleTouch_no_scroll [of s t now] by blast
  show "wheel_events (handleTouch t now s) = wheel_events s \<Longrightarrow>
     lastScrollTime (handleTouch t now s) = lastScrollTime s"
    using fires handleTouch_no_scroll [of s t now] by blast
qed

lemma checkMultiTouch_scroll:
  "lastScrollTime (checkMultiTouch t now connected s) = lastScrollTime s"
  "wheel_events (checkMultiTouch t now connected s) = wheel_events s"
  by (simp_all add: checkMultiTouch_def forceFullUpdate_def showVNCScreen_def resumeVNCScreen_def
      draw_def wheel_events_def Let_def split: option.split)

lemma checkSwipeGesture_scroll:
  "lastScrollTime (checkSwipeGesture cfg t now s) = lastScrollTime s"
  "wheel_events (checkSwipeGesture cfg t now s) = wheel_events s"
  by (simp_all add: checkSwipeGesture_def showInfoScreen_fields mouseEvent_def wheel_events_def Let_def)

lemma displayStatus_scroll:
  "lastScrollTime (displayStatus cfg title msg color s) = lastScrollTime s"
  "wheel_events (displayStatus cfg title msg color s) = wheel_events s"
  "vnc (displayStatus cfg title msg color s) = vnc s"
  "cardkb_available (displayStatus cfg title msg color s) = cardkb_available s"
  by (simp_all add: displayStatus_def draw_def wheel_events_def split: option.split)

lemma loop_scroll:
  "lastScrollTime (loop cfg t now_multi now_swipe connected button wire s) = lastScrollTime s"
  "wheel_events (loop cfg t now_multi now_swipe connected button wire s) = wheel_events s"
proof -
  have r: "\<And>u. lastScrollTime (reconnect u) = lastScrollTime u"
    "\<And>u. wheel_events (reconnect u) = wheel_events u"
    "\<And>u. vnc (reconnect u) = vnc u" "\<And>u. cardkb_available (reconnect u) = cardkb_available u"
    "\<And>u k p. lastScrollTime (keyEvent k p u) = lastScrollTime u"
    "\<And>u k p. wheel_events (keyEvent k p u) = wheel_events u"
    by (simp_all add: reconnect_def keyEvent_def wheel_events_def)
  show "lastScrollTime (loop cfg t now_multi now_swipe connected button wire s) = lastScrollTime s"
    by (simp add: loop_def Let_def r displayStatus_scroll checkSwipeGesture_scroll
        checkMultiTouch_scroll)
  show "wheel_events (loop cfg t now_multi now_swipe connected button wire s) = wheel_events s"
    by (simp add: loop_def Let_def r displayStatus_scroll checkSwipeGesture_scroll
        checkMultiTouch_scroll)
qed

lemma scroll_times_spaced:
  "successively (\<lambda>a b. SCROLL_MIN_INTERVAL \<le> b - a) (lastScrollTime s # scroll_times cfg as s)"
proof (induction as arbitrary: s)
  case Nil
  then show ?case by simp
next
  case (Cons a as)
  show ?case
  proof (cases a)
    case (Touch t now)
    show ?thesis
    proof (cases "wheel_events (handleTouch t now s) = wheel_events s")
      case True
      then show ?thesis
        using Cons.IH [of "handleTouch t now s"] handleTouch_wheel(2) [OF True]
        by (simp add: Touch)
    next
      case False
      then show ?thesis
        using Cons.IH [of "handleTouch t now s"] handleTouch_wheel(1) [OF False]
        by (simp add: Touch)
    qed
  next
    case (Pass t n1 n2 c b w)
    then show ?thesis
      using Cons.IH [of "loop cfg t n1 n2 c b w s"] by (simp add: loop_scroll)
  qed
qed

text \<open>
  C7: on a \<open>handleTouch\<close> tick of an active two-finger scroll, a scroll tick (wheel press
  and release) is sent if and only if \<open>|lastScrollY - y| >= 50\<close> and
  \<open>now - lastScrollTime >= 100\<close>; it then sets the anchor \<open>lastScrollY\<close> to the current
  \<open>y\<close> and \<open>lastScrollTime\<close> to \<open>now\<close>, and otherwise the state is unchanged. A pass of
  \<open>loop()\<close> sends no scroll tick. So in every run of \<open>handleTouch\<close> calls and \<open>loop()\<close>
  passes, each scroll tick comes at least 100 ms (on the \<open>uint32_t\<close> clock) after the one
  before it.
\<close>

theorem two_finger_scroll_is_rate_limited:
  assumes "vnc s" and "\<not> swipeInProgress s" and "\<not> screenJustSwitched s"
    and "getCount t = 2" and "twoFingerScrollActive s"
  shows "handleTouch t now s =
          (if SCROLL_THRESHOLD \<le> \<bar>lastScrollY s - touch_y t\<bar>
                \<and> SCROLL_MIN_INTERVAL \<le> now - lastScrollTime s
           then s\<lparr>lastScrollY := touch_y t, lastScrollTime := now,
                  remote := remote s @
                    [MouseEvent (touch_x t) (touch_y t) (if 0 < lastScrollY s - touch_y t then 8 else 16),
                     MouseEvent (touch_x t) (touch_y t) 0]\<rparr>
           else s)
       \<and> (wheel_events (handleTouch t now s) \<noteq> wheel_events s \<longleftrightarrow>
            SCROLL_THRESHOLD \<le> \<bar>lastScrollY s - touch_y t\<bar>
            \<and> SCROLL_MIN_INTERVAL \<le> now - lastScrollTime s)
       \<and> wheel_events (loop cfg t1 now_multi now_swipe connected button wire s1) = wheel_events s1
       \<and> successively (\<lambda>a b. SCROLL_MIN_INTERVAL \<le> b - a)
            (lastScrollTime s0 # scroll_times cfg as s0)"
proof -
  have step: "handleTouch t now s =
          (if scroll_due t now s
           then s\<lparr>lastScrollY := touch_y t, lastScrollTime := now,
                  remote := remote s @
                    [MouseEvent (touch_x t) (touch_y t) (if 0 < lastScrollY s - touch_y t then 8 else 16),
                     MouseEvent (touch_x t) (touch_y t) 0]\<rparr>
           else s)"
    using assms by (rule handleTouch_scroll)
  have "wheel_events (handleTouch t now s) \<noteq> wheel_events s \<longleftrightarrow> scroll_due t now s"
    unfolding step by (simp add: wheel_events_def)
  then show ?thesis
    using step loop_scroll(2) [of cfg t1 now_multi now_swipe connected button wire s1]
      scroll_times_spaced [of s0 cfg as]
    by (simp only: scroll_due_def simp_thms)
qed

lemma scroll_times_drag:
  "scroll_times tab5
     [Touch (fingers 2 50 300) 5000, Touch (fingers 2 50 240) 5010, Touch (fingers 2 50 180) 5030,
      Touch (fingers 2 50 100) 5050, Pass (fingers 2 50 100) 5060 5060 True False None,
      Touch (fingers 2 50 100) 5110]
     live_session = [5010, 5110]"
  by (simp add: tab5_def fingers_def live_session_def initial_def handleTouch_def mouseEvent_def
      wheel_events_def loop_def checkMultiTouch_def checkSwipeGesture_def
      SCROLL_THRESHOLD_def SCROLL_MIN_INTERVAL_def Let_def)

theorem two_finger_scroll_is_rate_limited_witness:
  "handleTouch (fingers 2 50 240) 1100
      (live_session\<lparr>twoFingerScrollActive := True, lastScrollY := 300, lastScrollTime := 1000\<rparr>)
     = live_session\<lparr>twoFingerScrollActive := True, lastScrollY := 240, lastScrollTime := 1100,
                    remote := [MouseEvent 50 240 8, MouseEvent 50 240 0]\<rparr>
   \<and> handleTouch (fingers 2 50 240) 1050
      (live_session\<lparr>twoFingerScrollActive := True, lastScrollY := 300, lastScrollTime := 1000\<rparr>)
     = live_session\<lparr>twoFingerScrollActive := True, lastScrollY := 300, lastScrollTime := 1000\<rparr>
   \<and> successively (\<lambda>a b. SCROLL_MIN_INTERVAL \<le> b - a) [0, 5010, 5110]"
  using two_finger_scroll_is_rate_limited
          [of "live_session\<lparr>twoFingerScrollActive := True, lastScrollY := 300, lastScrollTime := 1000\<rparr>"
              "fingers 2 50 240" 1100 tab5 lifted 0 0 False False None live_session live_session
              "[Touch (fingers 2 50 300) 5000, Touch (fingers 2 50 240) 5010,
                Touch (fingers 2 50 180) 5030, Touch (fingers 2 50 100) 5050,
                Pass (fingers 2 50 100) 5060 5060 True False None, Touch (fingers 2 50 100) 5110]"]
        two_finger_scroll_is_rate_limited
          [of "live_session\<lparr>twoFingerScrollActive := True, lastScrollY := 300, lastScrollTime := 1000\<rparr>"
              "fingers 2 50 240" 1050 tab5 lifted 0 0 False False None live_session live_session "[]"]
  unfolding scroll_times_drag
  by (simp add: live_session_def fingers_def initial_def SCROLL_THRESHOLD_def SCROLL_MIN_INTERVAL_def)

section \<open>Top-edge swipe\<close>













section \<open>Key codes\<close>

lemma loop_keys:
  "vnc (checkMultiTouch t now c s) = vnc s"
  "cardkb_available (checkMultiTouch t now c s) = cardkb_available s"
  "vnc (checkSwipeGesture cfg t now s) = vnc s"
  "cardkb_available (checkSwipeGesture cfg t now s) = cardkb_available s"
  "vnc (displayStatus cfg title msg color s) = vnc s"
  "cardkb_available (displayStatus cfg title msg color s) = cardkb_available s"
  "vnc (reconnect s) = vnc s"
  "cardkb_available (reconnect s) = cardkb_available s"
  by (simp_all add: checkMultiTouch_def forceFullUpdate_def showVNCScreen_def resumeVNCScreen_def
      checkSwipeGesture_def showInfoScreen_fields mouseEvent_def displayStatus_def reconnect_def
      draw_def Let_def split: option.split)

text \<open>
  C2: \<open>cardKBToKeysym\<close> does return 0 for every byte outside its table, but \<open>loop()\<close>
  does not drop such a byte: with the keyboard present and a client, every nonzero
  unmapped byte read ends the pass with a press and a release of keysym 0 sent to the
  session.
\<close>

theorem unmapped_key_is_forwarded:
  assumes "cardkb_available s" and "vnc s" and "c \<noteq> 0"
    and "\<not> (0x20 \<le> c \<and> c \<le> 0x7E)"
    and "c \<notin> {0x0A, 0x0D, 0x08, 0x1B, 0x09, 0xb4, 0xb7, 0xb5, 0xb6, 0xff}"
  shows "cardKBToKeysym c = 0
       \<and> (\<exists>sent. remote (loop cfg t now_multi now_swipe connected button (Some c) s)
                    = sent @ [KeyEvent 0 1, KeyEvent 0 0])"
proof -
  have k: "cardKBToKeysym c = 0"
    using assms(4,5) by (auto simp add: cardKBToKeysym_def)
  have "remote (loop cfg t now_multi now_swipe connected button (Some c) s)
      = remote (if button \<and> \<not> connected
                then reconnect (displayStatus cfg ''Reconnecting'' (getVNCAddress cfg) TFT_YELLOW
                       (checkSwipeGesture cfg t now_swipe (checkMultiTouch t now_multi connected s)))
                else checkSwipeGesture cfg t now_swipe (checkMultiTouch t now_multi connected s))
          @ [KeyEvent 0 1, KeyEvent 0 0]"
    using assms(1,2,3) by (simp add: loop_def Let_def loop_keys cardkb_getch_def k keyEvent_def)
  then show ?thesis
    using k by blast
qed

theorem unmapped_key_is_forwarded_witness:
  "cardKBToKeysym 0x80 = 0 \<and>
   remote (loop tab5 lifted 0 0 True False (Some 0x80) (live_session\<lparr>cardkb_available := True\<rparr>))
     = [KeyEvent 0 1, KeyEvent 0 0]"
  using unmapped_key_is_forwarded
          [of "live_session\<lparr>cardkb_available := True\<rparr>" "0x80" tab5 lifted 0 0 True False]
  by (simp add: loop_def checkMultiTouch_def checkSwipeGesture_def live_session_def lifted_def
      initial_def cardkb_getch_def cardKBToKeysym_def keyEvent_def Let_def)

end
